theory Spec2Isabelle
  imports Main "HOL-Library.Sublist"
begin

section \<open>Strings as the Python code uses them\<close>

text \<open>
  A Python \<open>str\<close> is modelled as a \<open>string\<close> whose characters are the code points
  below 256. \<open>py_lower\<close> is \<open>str.lower()\<close> on that range: the ASCII capitals and the
  Latin-1 capitals (0xC0 to 0xDE, the multiplication sign 0xD7 apart) move up by 32.
\<close>

definition py_lower_char :: "char \<Rightarrow> char" where
  "py_lower_char c =
     (let n = of_char c :: nat
      in if (65 \<le> n \<and> n \<le> 90) \<or> (192 \<le> n \<and> n \<le> 222 \<and> n \<noteq> 215)
         then char_of (n + 32) else c)"

definition py_lower :: "string \<Rightarrow> string" where
  "py_lower s = map py_lower_char s"

text \<open>\<open>s.replace(a, b)\<close> for a single character \<open>a\<close>.\<close>

definition replace_char :: "char \<Rightarrow> char \<Rightarrow> string \<Rightarrow> string" where
  "replace_char a b s = map (\<lambda>c. if c = a then b else c) s"

text \<open>\<open>sep.join(xs)\<close>.\<close>

fun join_with :: "string \<Rightarrow> string list \<Rightarrow> string" where
  "join_with sep [] = []"
| "join_with sep [x] = x"
| "join_with sep (x # y # ys) = x @ sep @ join_with sep (y # ys)"

text \<open>\<open>str(n)\<close> for a natural number, as the f-strings of the server print it.\<close>

definition digit_char :: "nat \<Rightarrow> char" where
  "digit_char d = char_of (48 + d)"

function show_nat :: "nat \<Rightarrow> string" where
  "show_nat n = (if n < 10 then [digit_char n] else show_nat (n div 10) @ [digit_char (n mod 10)])"
  by pat_completeness auto
termination
  by (relation "measure id") auto

declare show_nat.simps [simp del]

section \<open>Data model of the server (Server3.py)\<close>

type_synonym client_id = string

text \<open>An outward message: the dict \<open>{"message": ..., "status": ...}\<close>.\<close>

record event =
  message :: string
  status :: string

text \<open>
  One loadlist entry. \<open>run_item.get('temperature', 'N/A')\<close> reads an absent key as
  the default, so the two keys the server reads are optional.
\<close>

record loadlist_item =
  temperature :: "string option"
  band :: "string option"
  test_cases :: "string list"

text \<open>
  The \<open>test_config\<close> dict of a start command. A key that is absent from the dict is
  \<open>None\<close>; the values have the types of the wire protocol (strings, a list of items).
\<close>

record test_config =
  serial_number :: "string option"
  model :: "string option"
  stage :: "string option"
  loadlist :: "loadlist_item list option"

text \<open>An inward message: \<open>{"command": ..., "test_config": ...}\<close>.\<close>

record command_message =
  command :: "string option"
  cfg_of :: "test_config option"

datatype 'a outcome = Returns 'a | Raises string

text \<open>
  What happens while the worker is inside one plugin call. The plugin may report
  through the status callback the server handed to it (\<open>Emit message status\<close>), and a
  session thread may process a command of a client in the meantime: a \<open>stop\<close> command
  (\<open>Stop_cmd client\<close>) or a \<open>start\<close> command (\<open>Start_cmd client message\<close>). A call is
  the finite sequence of these, followed by the value the plugin returns or the
  exception it raises. The worker's own statements between two plugin calls are taken
  as one step: commands are processed during plugin calls. A start command that is
  accepted while the worker is still alive starts a second worker thread; the steps of
  that second thread are not followed here, so every statement below that describes a
  run after such a start says so, or excludes it by a hypothesis.
\<close>

datatype action = Emit string string | Stop_cmd client_id | Start_cmd client_id command_message

type_synonym 'a call = "action list \<times> 'a outcome"

text \<open>
  A model class (the lifecycle-object shape of ModelC.py): its constructor, \<open>setup()\<close>
  (here \<open>setup_plugin\<close>), \<open>run_tests(item)\<close> for the i-th loadlist entry, and \<open>cleanup()\<close>, which the worker can
  reach a second time from its exception handler (the argument counts earlier calls).
  Return values are read by their truth value, as \<open>if not ...\<close> does.
\<close>

record plugin =
  construct :: "unit call"
  setup_plugin :: "bool call"
  run_tests :: "nat \<Rightarrow> loadlist_item \<Rightarrow> bool call"
  cleanup :: "nat \<Rightarrow> unit call"

datatype plugin_call = Call_init | Call_setup | Call_run_tests loadlist_item | Call_cleanup

text \<open>
  The \<open>TestServer\<close> object. \<open>clients\<close> are the keys of the registry dict in insertion
  order. Four fields record what the code does to the outside: \<open>sent\<close> is every frame
  handed to a socket, \<open>broadcasts\<close> every message given to
  \<open>broadcast_to_all_clients\<close>, \<open>plugin_calls\<close> every call made on a model class, and
  \<open>stop_marks\<close> the positions in \<open>broadcasts\<close> of the messages that \<open>stop_test\<close> sent.
\<close>

record server =
  clients :: "client_id list"
  current_test :: "test_config option"
  test_running :: bool
  current_model_instance :: "plugin option"
  sent :: "(client_id \<times> event) list"
  broadcasts :: "event list"
  plugin_calls :: "plugin_call list"
  stop_marks :: "nat list"

section \<open>Sending\<close>

text \<open>
  \<open>send_to_client\<close> catches every exception of the socket, so it always returns;
  \<open>sent\<close> records the frame it handed to the socket. \<open>broadcast_to_all_clients\<close>
  sends to every client of the registry, in its order.
\<close>

definition send_to_client :: "client_id \<Rightarrow> event \<Rightarrow> server \<Rightarrow> server" where
  "send_to_client sock ev st = st\<lparr>sent := sent st @ [(sock, ev)]\<rparr>"

definition broadcast_to_all_clients :: "event \<Rightarrow> server \<Rightarrow> server" where
  "broadcast_to_all_clients ev st =
     (fold (\<lambda>c. send_to_client c ev) (clients st) st)\<lparr>broadcasts := broadcasts st @ [ev]\<rparr>"

section \<open>Session commands\<close>

definition stop_test :: "client_id \<Rightarrow> server \<Rightarrow> server" where
  "stop_test sock st =
     (let st1 = st\<lparr>test_running := False\<rparr>;
          st2 = broadcast_to_all_clients
                  \<lparr>message = ''Test stopped by user request'', status = ''stopped''\<rparr> st1
      in st2\<lparr>current_test := None, stop_marks := stop_marks st @ [length (broadcasts st)]\<rparr>)"

definition handle_stop_command :: "client_id \<Rightarrow> server \<Rightarrow> server" where
  "handle_stop_command sock st =
     (if \<not> test_running st
      then send_to_client sock \<lparr>message = ''No test currently running'', status = ''idle''\<rparr> st
      else stop_test sock st)"

text \<open>\<open>status.title()\<close> of the two status words.\<close>

definition handle_status_command :: "client_id \<Rightarrow> server \<Rightarrow> server" where
  "handle_status_command sock st =
     (let stat = (if test_running st then ''running'' else ''idle'');
          msg = ''Server status: '' @ (if test_running st then ''Running'' else ''Idle'');
          msg' = (case current_test st of
                    None \<Rightarrow> msg
                  | Some cfg \<Rightarrow>
                      if serial_number cfg = None \<and> model cfg = None
                         \<and> stage cfg = None \<and> loadlist cfg = None
                      then msg
                      else msg @ '' | Current test: ''
                             @ (case serial_number cfg of None \<Rightarrow> ''Unknown'' | Some sn \<Rightarrow> sn))
      in send_to_client sock \<lparr>message = msg', status = stat\<rparr> st)"

text \<open>
  \<open>start_test\<close> up to the point where it starts the worker thread. The second
  component says whether the thread was started; the worker itself is
  \<open>execute_model_test\<close> below. The \<open>except\<close> branch is taken on the \<open>KeyError\<close> of a
  missing serial number and on the \<open>ValueError\<close> for an absent or empty model name.
\<close>

definition start_failed :: "client_id \<Rightarrow> string \<Rightarrow> server \<Rightarrow> server" where
  "start_failed sock e st =
     send_to_client sock \<lparr>message = ''Failed to start test: '' @ e, status = ''error''\<rparr>
       (st\<lparr>test_running := False, current_test := None\<rparr>)"

definition start_test :: "client_id \<Rightarrow> test_config \<Rightarrow> server \<Rightarrow> server \<times> bool" where
  "start_test sock cfg st =
     (let st1 = st\<lparr>test_running := True, current_test := Some cfg\<rparr>
      in case serial_number cfg of
           None \<Rightarrow> (start_failed sock (CHR 0x27 # ''serial_number'' @ [CHR 0x27]) st1, False)
         | Some sn \<Rightarrow>
             (let st2 = broadcast_to_all_clients
                          \<lparr>message = ''Starting test for SN: '' @ sn, status = ''running''\<rparr> st1
              in if model cfg = None \<or> model cfg = Some []
                 then (start_failed sock ''No model specified in test configuration'' st2, False)
                 else (st2, True)))"

definition missing_fields :: "test_config \<Rightarrow> string list" where
  "missing_fields cfg =
     (if serial_number cfg = None then [''serial_number''] else [])
     @ (if model cfg = None then [''model''] else [])
     @ (if stage cfg = None then [''stage''] else [])
     @ (if loadlist cfg = None then [''loadlist''] else [])"

text \<open>\<open>not test_config\<close>: the key is absent from the message, or the dict is empty.\<close>

definition no_config :: "test_config option \<Rightarrow> bool" where
  "no_config c =
     (case c of
        None \<Rightarrow> True
      | Some cfg \<Rightarrow> serial_number cfg = None \<and> model cfg = None
                     \<and> stage cfg = None \<and> loadlist cfg = None)"

definition handle_start_command :: "client_id \<Rightarrow> command_message \<Rightarrow> server \<Rightarrow> server \<times> bool" where
  "handle_start_command sock msg st =
     (if test_running st
      then (send_to_client sock
              \<lparr>message = ''Test already running. Please stop current test first.'',
               status = ''running''\<rparr> st, False)
      else if no_config (cfg_of msg)
      then (send_to_client sock
              \<lparr>message = ''No test configuration provided'', status = ''error''\<rparr> st, False)
      else (case cfg_of msg of
              None \<Rightarrow> (st, False)
            | Some cfg \<Rightarrow>
                if missing_fields cfg \<noteq> []
                then (send_to_client sock
                        \<lparr>message = ''Missing required fields: ''
                                     @ join_with '', '' (missing_fields cfg),
                         status = ''error''\<rparr> st, False)
                else if loadlist cfg = None \<or> loadlist cfg = Some []
                then (send_to_client sock
                        \<lparr>message = ''The '' @ [CHR 0x27] @ ''loadlist'' @ [CHR 0x27]
                                     @ '' must be a non-empty list.'',
                         status = ''error''\<rparr> st, False)
                else start_test sock cfg st))"

text \<open>
  \<open>process_client_message\<close>: \<open>message.get('command', '').lower()\<close> selects the
  handler. The boolean says whether a worker thread was started.
\<close>

definition process_client_message :: "client_id \<Rightarrow> command_message \<Rightarrow> server \<Rightarrow> server \<times> bool" where
  "process_client_message sock msg st =
     (let cmd = py_lower (case command msg of None \<Rightarrow> [] | Some c \<Rightarrow> c)
      in if cmd = ''start'' then handle_start_command sock msg st
         else if cmd = ''stop'' then (handle_stop_command sock st, False)
         else if cmd = ''status'' then (handle_status_command sock st, False)
         else (send_to_client sock
                 \<lparr>message = ''Unknown command: '' @ cmd, status = ''error''\<rparr> st, False))"

section \<open>The status callback and plugin calls\<close>

text \<open>The closure \<open>status_callback\<close> that \<open>execute_model_test\<close> hands to the model class.\<close>

definition status_callback :: "string \<Rightarrow> string \<Rightarrow> server \<Rightarrow> server" where
  "status_callback msg stat st =
     (if test_running st
      then broadcast_to_all_clients \<lparr>message = msg, status = stat\<rparr> st
      else st)"

text \<open>
  What the actions of a plugin call do to the server: a report goes through
  \<open>status_callback\<close>, a stop command through \<open>handle_stop_command\<close>, a start command
  through \<open>handle_start_command\<close>.
\<close>

fun perform :: "action list \<Rightarrow> server \<Rightarrow> server" where
  "perform [] st = st"
| "perform (Emit msg stat # acts) st = perform acts (status_callback msg stat st)"
| "perform (Stop_cmd c # acts) st = perform acts (handle_stop_command c st)"
| "perform (Start_cmd c msg # acts) st = perform acts (fst (handle_start_command c msg st))"

text \<open>
  A call on the model class: its actions are performed, the call is recorded in
  \<open>plugin_calls\<close>, and its outcome is handed back to the worker.
\<close>

definition invoke :: "plugin_call \<Rightarrow> 'a call \<Rightarrow> server \<Rightarrow> 'a outcome \<times> server" where
  "invoke c k st =
     (let st' = perform (fst k) st
      in (snd k, st'\<lparr>plugin_calls := plugin_calls st' @ [c]\<rparr>))"

section \<open>The worker: \<open>execute_model_test\<close>\<close>

text \<open>
  \<open>load_model_module\<close> reads the file system: it is a parameter \<open>loader\<close> that maps a
  model name to the loaded module, or to \<open>None\<close> when the file is absent or cannot be
  loaded. A module maps the names of the classes it defines to those classes.
\<close>

type_synonym model_module = "string \<Rightarrow> plugin option"

definition model_class_name :: "string \<Rightarrow> string" where
  "model_class_name model_name =
     (if prefix ''Model'' model_name \<and> length model_name > 5
      then ''Model'' @ [last model_name] else model_name)"

definition item_temp :: "loadlist_item \<Rightarrow> string" where
  "item_temp run_item = (case temperature run_item of None \<Rightarrow> ''N/A'' | Some t \<Rightarrow> t)"

definition item_band :: "loadlist_item \<Rightarrow> string" where
  "item_band run_item = (case band run_item of None \<Rightarrow> ''N/A'' | Some b \<Rightarrow> b)"

definition running_item_message :: "nat \<Rightarrow> nat \<Rightarrow> loadlist_item \<Rightarrow> string" where
  "running_item_message i n run_item =
     ''--- Running Loadlist item '' @ show_nat (i + 1) @ ''/'' @ show_nat n
       @ '': Temp='' @ item_temp run_item @ '', Band='' @ item_band run_item @ '' ---''"

definition failed_item_message :: "loadlist_item \<Rightarrow> string" where
  "failed_item_message run_item =
     ''Failed item: Temp='' @ item_temp run_item @ '', Band='' @ item_band run_item"

text \<open>
  The \<open>for i, run_item in enumerate(loadlist)\<close> loop, over the enumerated list, with
  \<open>n = len(loadlist)\<close>; \<open>inst\<close> is \<open>self.current_model_instance\<close>. The result is the
  value of \<open>overall_success\<close> when the loop is left, or the exception that left it.
\<close>

fun loadlist_loop ::
  "plugin \<Rightarrow> nat \<Rightarrow> (nat \<times> loadlist_item) list \<Rightarrow> bool \<Rightarrow> server \<Rightarrow> bool outcome \<times> server"
where
  "loadlist_loop inst n [] overall_success st = (Returns overall_success, st)"
| "loadlist_loop inst n ((i, run_item) # rest) overall_success st =
     (if \<not> test_running st
      then (Returns False, status_callback ''Test execution was stopped.'' ''stopped'' st)
      else
        (let st1 = status_callback (running_item_message i n run_item) ''running'' st
         in case invoke (Call_run_tests run_item) (run_tests inst i run_item) st1 of
              (Raises e, st2) \<Rightarrow> (Raises e, st2)
            | (Returns run_success, st2) \<Rightarrow>
                if \<not> run_success
                then loadlist_loop inst n rest False
                       (status_callback (failed_item_message run_item) ''error'' st2)
                else loadlist_loop inst n rest overall_success st2))"

text \<open>The final status report (the lines after the cleanup).\<close>

definition final_report :: "test_config \<Rightarrow> bool \<Rightarrow> server \<Rightarrow> bool outcome \<times> server" where
  "final_report cfg overall_success st =
     (if test_running st
      then (case serial_number cfg of
              None \<Rightarrow> (Raises (CHR 0x27 # ''serial_number'' @ [CHR 0x27]), st)
            | Some sn \<Rightarrow>
                (Returns overall_success,
                 broadcast_to_all_clients
                   \<lparr>message = ''Test '' @ (if overall_success then ''completed successfully''
                                            else ''finished with errors'')
                               @ '' for SN: '' @ sn,
                    status = (if overall_success then ''completed'' else ''error'')\<rparr> st))
      else (Returns overall_success, st))"

text \<open>What follows the loop inside the \<open>try\<close> block: cleanup and the final report.\<close>

definition after_loop ::
  "plugin \<Rightarrow> string \<Rightarrow> test_config \<Rightarrow> bool \<Rightarrow> server \<Rightarrow> bool outcome \<times> server"
where
  "after_loop inst model_name cfg overall_success st =
     (let st1 = status_callback (''Cleaning up '' @ model_name @ '' test environment...'')
                  ''running'' st
      in case invoke Call_cleanup (cleanup inst 0) st1 of
           (Raises e, st2) \<Rightarrow> (Raises e, st2)
         | (Returns u, st2) \<Rightarrow>
             final_report cfg overall_success (st2\<lparr>current_model_instance := None\<rparr>))"

text \<open>The body of the \<open>try\<close> block.\<close>

definition try_body ::
  "(string \<Rightarrow> model_module option) \<Rightarrow> string \<Rightarrow> test_config \<Rightarrow> server \<Rightarrow> bool outcome \<times> server"
where
  "try_body loader model_name cfg st =
     (case loader model_name of
        None \<Rightarrow>
          (Raises (''Model module '' @ [CHR 0x27] @ model_name @ ''.py'' @ [CHR 0x27]
                   @ '' not found''), st)
      | Some model_module \<Rightarrow>
          (case model_module (model_class_name model_name) of
             None \<Rightarrow>
               (Raises (''Model module '' @ [CHR 0x27] @ model_name @ ''.py'' @ [CHR 0x27]
                        @ '' missing required class '' @ [CHR 0x27]
                        @ model_class_name model_name @ [CHR 0x27]), st)
           | Some model_class \<Rightarrow>
               (case invoke Call_init (construct model_class) st of
                  (Raises e, st1) \<Rightarrow> (Raises e, st1)
                | (Returns u, st1) \<Rightarrow>
                    (let st2 = st1\<lparr>current_model_instance := Some model_class\<rparr>;
                         st3 = status_callback
                                 (''Setting up '' @ model_name @ '' test environment...'')
                                 ''running'' st2
                     in case invoke Call_setup (setup_plugin model_class) st3 of
                          (Raises e, st4) \<Rightarrow> (Raises e, st4)
                        | (Returns ok, st4) \<Rightarrow>
                            if \<not> ok
                            then (Raises (''Setup failed for '' @ model_name), st4)
                            else
                              (let items = (case loadlist cfg of None \<Rightarrow> [] | Some l \<Rightarrow> l)
                               in case loadlist_loop model_class (length items)
                                         (enumerate 0 items) True st4 of
                                    (Raises e, st5) \<Rightarrow> (Raises e, st5)
                                  | (Returns overall_success, st5) \<Rightarrow>
                                      after_loop model_class model_name cfg
                                        overall_success st5)))))"

text \<open>
  The \<open>except Exception\<close> handler: the error broadcast, then a cleanup of the instance
  if there is one, whose own exception is only printed.
\<close>

definition on_exception :: "string \<Rightarrow> server \<Rightarrow> server" where
  "on_exception e st =
     (let st1 = broadcast_to_all_clients
                  \<lparr>message = ''Test execution error: '' @ e, status = ''error''\<rparr> st
      in case current_model_instance st1 of
           None \<Rightarrow> st1
         | Some inst \<Rightarrow>
             snd (invoke Call_cleanup
                    (cleanup inst (length (filter (\<lambda>c. c = Call_cleanup) (plugin_calls st1))))
                    st1))"

text \<open>The \<open>finally\<close> block.\<close>

definition finally_reset :: "server \<Rightarrow> server" where
  "finally_reset st =
     st\<lparr>test_running := False, current_test := None, current_model_instance := None\<rparr>"

text \<open>
  The worker. It returns the last value of its local \<open>overall_success\<close> next to the
  server state it leaves.
\<close>

definition execute_model_test ::
  "(string \<Rightarrow> model_module option) \<Rightarrow> string \<Rightarrow> test_config \<Rightarrow> server \<Rightarrow> bool \<times> server"
where
  "execute_model_test loader model_name cfg st =
     (case try_body loader model_name cfg st of
        (Returns overall_success, st1) \<Rightarrow> (overall_success, finally_reset st1)
      | (Raises e, st1) \<Rightarrow> (False, finally_reset (on_exception e st1)))"

text \<open>The loadlist items on which \<open>run_tests\<close> was called, in the order of the calls.\<close>

fun invoked_items :: "plugin_call list \<Rightarrow> loadlist_item list" where
  "invoked_items [] = []"
| "invoked_items (Call_run_tests x # cs) = x # invoked_items cs"
| "invoked_items (c # cs) = invoked_items cs"

section \<open>Predicates used in the statements\<close>

text \<open>No stop command is processed during a plugin call.\<close>

definition no_stop :: "action list \<Rightarrow> bool" where
  "no_stop acts =
     list_all (\<lambda>a. case a of Emit m s \<Rightarrow> True | Stop_cmd c \<Rightarrow> False | Start_cmd c m \<Rightarrow> True) acts"

text \<open>No start command is processed during a plugin call.\<close>

definition no_start :: "action list \<Rightarrow> bool" where
  "no_start acts =
     list_all (\<lambda>a. case a of Emit m s \<Rightarrow> True | Stop_cmd c \<Rightarrow> True | Start_cmd c m \<Rightarrow> False) acts"

text \<open>No command at all is processed during a plugin call: the plugin only reports.\<close>

definition reports_only :: "action list \<Rightarrow> bool" where
  "reports_only acts =
     list_all (\<lambda>a. case a of Emit m s \<Rightarrow> True | Stop_cmd c \<Rightarrow> False | Start_cmd c m \<Rightarrow> False) acts"

text \<open>
  No start command is processed during any call the worker makes on a model class, and
  the same for the class a loader resolves a model name to.
\<close>

definition no_start_during :: "plugin \<Rightarrow> bool" where
  "no_start_during inst =
     (no_start (fst (construct inst)) \<and> no_start (fst (setup_plugin inst))
      \<and> (\<forall>i x. no_start (fst (run_tests inst i x)))
      \<and> (\<forall>k. no_start (fst (cleanup inst k))))"

definition no_restart :: "(string \<Rightarrow> model_module option) \<Rightarrow> string \<Rightarrow> bool" where
  "no_restart loader model_name =
     (case loader model_name of
        None \<Rightarrow> True
      | Some model_module \<Rightarrow>
          (case model_module (model_class_name model_name) of
             None \<Rightarrow> True
           | Some inst \<Rightarrow> no_start_during inst))"

text \<open>
  The \<open>run_tests\<close> call on an enumerated item lets the loop go on to the next item: no
  stop command is processed during the call, and the call returns.
\<close>

definition continues :: "plugin \<Rightarrow> nat \<times> loadlist_item \<Rightarrow> bool" where
  "continues inst ix =
     (no_stop (fst (run_tests inst (fst ix) (snd ix)))
      \<and> (case snd (run_tests inst (fst ix) (snd ix)) of Returns b \<Rightarrow> True | Raises e \<Rightarrow> False))"

text \<open>The messages of a list that report the end of a run.\<close>

definition terminal_events :: "event list \<Rightarrow> event list" where
  "terminal_events evs = filter (\<lambda>ev. status ev = ''completed'' \<or> status ev = ''error'') evs"

text \<open>The Idle run state.\<close>

definition is_idle :: "server \<Rightarrow> bool" where
  "is_idle st = (\<not> test_running st \<and> current_test st = None
                 \<and> (case current_model_instance st of None \<Rightarrow> True | Some p \<Rightarrow> False))"

section \<open>The test-case dispatcher (test_case_2.py)\<close>

text \<open>
  \<open>getattr(self, method_name, None)\<close> on a \<open>TestCases2\<close> object, for the names that
  \<open>run_test_by_name\<close> can ask for: they all start with \<open>test_\<close>. Four of them are
  methods; \<open>test_config_dict\<close> is a dictionary, which is not callable.
\<close>

datatype test_method = Test_gain_flatness | Test_power_sweep | Test_am_pm | Test_spur

datatype attribute = Method test_method | Data_attribute

definition getattr_TestCases2 :: "string \<Rightarrow> attribute option" where
  "getattr_TestCases2 name =
     (if name = ''test_gain_flatness'' then Some (Method Test_gain_flatness)
      else if name = ''test_power_sweep'' then Some (Method Test_power_sweep)
      else if name = ''test_am_pm'' then Some (Method Test_am_pm)
      else if name = ''test_spur'' then Some (Method Test_spur)
      else if name = ''test_config_dict'' then Some Data_attribute
      else None)"

text \<open>The dict \<open>{'passed': ..., 'message': ...}\<close> that the dispatcher returns.\<close>

record test_result =
  passed :: bool
  result_message :: string

text \<open>
  What a test method does when it is called: the messages it reports through the status
  callback, and the truth value it returns or the exception it raises. The bodies talk
  to instruments and to a database, so the dispatcher takes them as a parameter.
\<close>

type_synonym method_run = "(string \<times> string) list \<times> bool outcome"

definition method_name_of :: "string \<Rightarrow> string" where
  "method_name_of test_name =
     ''test_'' @ replace_char (CHR ''/'') (CHR ''_'')
                  (replace_char (CHR '' '') (CHR ''_'') (py_lower test_name))"

definition quoted :: "string \<Rightarrow> string" where
  "quoted s = [CHR 0x27] @ s @ [CHR 0x27]"

text \<open>
  \<open>run_test_by_name\<close>: the result, and the messages reported through the status
  callback, in order.
\<close>

definition run_test_by_name ::
  "(test_method \<Rightarrow> method_run) \<Rightarrow> string \<Rightarrow> test_result outcome \<times> (string \<times> string) list"
where
  "run_test_by_name impl test_name =
     (case getattr_TestCases2 (method_name_of test_name) of
        Some (Method m) \<Rightarrow>
          (case impl m of
             (reports, Returns p) \<Rightarrow>
               (Returns \<lparr>passed = p,
                         result_message = (if p then quoted test_name @ '' completed.''
                                           else quoted test_name @ '' failed during execution.'')\<rparr>,
                reports)
           | (reports, Raises e) \<Rightarrow>
               (Returns \<lparr>passed = False,
                         result_message = ''Execution error in '' @ quoted test_name @ '': '' @ e\<rparr>,
                reports @ [(''CRITICAL ERROR in '' @ test_name @ '': '' @ e, ''error'')]))
      | _ \<Rightarrow>
          (let message = ''Test case '' @ quoted test_name @ '' is not implemented in TestCases2.''
           in (Returns \<lparr>passed = False, result_message = message\<rparr>, [(message, ''error'')])))"

text \<open>
  The normalisation as the specification words it, character by character: a space or a
  slash becomes an underscore, every other character is lowercased.
\<close>

definition normalized_name :: "string \<Rightarrow> string" where
  "normalized_name test_name =
     map (\<lambda>c. if c = CHR '' '' \<or> c = CHR ''/'' then CHR ''_'' else py_lower_char c) test_name"

section \<open>The catalog query \<open>get_testcase\<close> (Client6.py)\<close>

text \<open>
  The two sheets the query reads, as lists of rows with the columns it uses.
  \<open>column_min\<close> is \<open>Series.min()\<close> (only called on a non-empty column), \<open>unique\<close> is
  \<open>Series.unique()\<close>, which keeps first occurrences.
\<close>

record rule =
  ModelID :: int
  BandID :: int
  TemperatureID :: int
  Priority :: int
  TestCaseID :: int

record testcase_def =
  ID :: int
  TestCaseName :: string

definition rule_matches :: "int \<Rightarrow> int \<Rightarrow> int \<Rightarrow> rule \<Rightarrow> bool" where
  "rule_matches model_id band_id temperature_id r =
     ((ModelID r = model_id \<or> ModelID r = 0)
      \<and> (BandID r = band_id \<or> BandID r = 0)
      \<and> (TemperatureID r = temperature_id \<or> TemperatureID r = 0))"

fun column_min :: "int list \<Rightarrow> int" where
  "column_min [] = 0"
| "column_min (x # xs) = fold min xs x"

fun unique :: "int list \<Rightarrow> int list" where
  "unique [] = []"
| "unique (x # xs) = x # filter (\<lambda>y. y \<noteq> x) (unique xs)"

definition get_testcase ::
  "rule list \<Rightarrow> testcase_def list \<Rightarrow> int \<Rightarrow> int \<Rightarrow> int \<Rightarrow> (int \<times> string) list"
where
  "get_testcase TESTCASE_RULES_DF TESTCASE_DEFS_DF model_id band_id temperature_id =
     (let applicable_rules = filter (rule_matches model_id band_id temperature_id) TESTCASE_RULES_DF
      in if applicable_rules = [] then []
         else
           (let highest_priority = column_min (map Priority applicable_rules);
                winning_rule_tcs = filter (\<lambda>r. Priority r = highest_priority) applicable_rules;
                test_case_ids = unique (map TestCaseID winning_rule_tcs);
                final_test_cases = filter (\<lambda>d. ID d \<in> set test_case_ids) TESTCASE_DEFS_DF
            in map (\<lambda>d. (ID d, TestCaseName d)) final_test_cases))"

text \<open>
  A winning row: a rule that matches the query and whose priority number no matching
  rule undercuts.
\<close>

definition wins :: "rule list \<Rightarrow> int \<Rightarrow> int \<Rightarrow> int \<Rightarrow> rule \<Rightarrow> bool" where
  "wins rules model_id band_id temperature_id r =
     (r \<in> set rules \<and> rule_matches model_id band_id temperature_id r
      \<and> (\<forall>r' \<in> set rules. rule_matches model_id band_id temperature_id r'
             \<longrightarrow> Priority r \<le> Priority r'))"

section \<open>The framed channel: sending (Server3.py) and receiving (Client6.py)\<close>

text \<open>
  \<open>send_to_client\<close> writes \<open>json.dumps(message) + '\n'\<close>. \<open>json.dumps\<close> is the standard
  library's; it is modelled here for the dicts the server sends, which hold the two
  string members \<open>message\<close> and \<open>status\<close> in that order. With the default
  \<open>ensure_ascii\<close> a character is written as it is when it is printable ASCII other than
  the quote and the backslash, by its two-character escape when it has one, and as
  \<open>\u00XX\<close> (lowercase hexadecimal) otherwise.
\<close>

definition hex_digit :: "nat \<Rightarrow> char" where
  "hex_digit d = ''0123456789abcdef'' ! d"

definition escape_char :: "char \<Rightarrow> string" where
  "escape_char c =
     (if c = CHR 0x22 then [CHR 0x5C, CHR 0x22]
      else if c = CHR 0x5C then [CHR 0x5C, CHR 0x5C]
      else if c = CHR 0x0A then [CHR 0x5C, CHR ''n'']
      else if c = CHR 0x0D then [CHR 0x5C, CHR ''r'']
      else if c = CHR 0x09 then [CHR 0x5C, CHR ''t'']
      else if c = CHR 0x08 then [CHR 0x5C, CHR ''b'']
      else if c = CHR 0x0C then [CHR 0x5C, CHR ''f'']
      else if 32 \<le> (of_char c :: nat) \<and> (of_char c :: nat) \<le> 126 then [c]
      else [CHR 0x5C, CHR ''u'', CHR ''0'', CHR ''0'',
            hex_digit ((of_char c :: nat) div 16), hex_digit ((of_char c :: nat) mod 16)])"

definition json_string :: "string \<Rightarrow> string" where
  "json_string s = [CHR 0x22] @ concat (map escape_char s) @ [CHR 0x22]"

definition json_dumps :: "event \<Rightarrow> string" where
  "json_dumps ev =
     ''{'' @ json_string ''message'' @ '': '' @ json_string (message ev) @ '', ''
       @ json_string ''status'' @ '': '' @ json_string (status ev) @ ''}''"

text \<open>The line that \<open>send_to_client\<close> hands to the socket.\<close>

definition json_message :: "event \<Rightarrow> string" where
  "json_message ev = json_dumps ev @ [CHR 0x0A]"

text \<open>
  The receiving side calls \<open>json.JSONDecoder().raw_decode\<close>, also the standard library's.
  The model follows the library's \<open>scanstring\<close> and \<open>JSONObject\<close> on objects whose
  members are strings, the shape of every message the server sends: \<open>scanstring\<close> reads
  up to the closing quote, decodes the escapes and refuses raw control characters;
  whitespace is skipped where the library skips it. A value that is not a string, a
  document that is not an object and a \<open>\u\<close> escape of a code point above 255 are outside
  this model and are reported like a decode error (\<open>None\<close>).
\<close>

definition hex_value :: "char \<Rightarrow> nat option" where
  "hex_value c =
     map_of (zip ''0123456789abcdefABCDEF''
               [0, 1, 2, 3, 4, 5, 6, 7, 8, 9, 10, 11, 12, 13, 14, 15, 10, 11, 12, 13, 14, 15]) c"

definition hex4 :: "char \<Rightarrow> char \<Rightarrow> char \<Rightarrow> char \<Rightarrow> nat option" where
  "hex4 a b c d =
     (case (hex_value a, hex_value b, hex_value c, hex_value d) of
        (Some w, Some x, Some y, Some z) \<Rightarrow> Some (w * 4096 + x * 256 + y * 16 + z)
      | _ \<Rightarrow> None)"

definition backslash :: "char \<Rightarrow> char option" where
  "backslash esc =
     (if esc = CHR 0x22 then Some (CHR 0x22)
      else if esc = CHR 0x5C then Some (CHR 0x5C)
      else if esc = CHR ''/'' then Some (CHR ''/'')
      else if esc = CHR ''b'' then Some (CHR 0x08)
      else if esc = CHR ''f'' then Some (CHR 0x0C)
      else if esc = CHR ''n'' then Some (CHR 0x0A)
      else if esc = CHR ''r'' then Some (CHR 0x0D)
      else if esc = CHR ''t'' then Some (CHR 0x09)
      else None)"

definition push_char :: "char \<Rightarrow> (string \<times> string) option \<Rightarrow> (string \<times> string) option" where
  "push_char c r = (case r of None \<Rightarrow> None | Some (s, rest) \<Rightarrow> Some (c # s, rest))"

fun scanstring :: "string \<Rightarrow> (string \<times> string) option" where
  "scanstring [] = None"
| "scanstring (c # cs) =
     (if c = CHR 0x22 then Some ([], cs)
      else if c = CHR 0x5C then
        (case cs of
           [] \<Rightarrow> None
         | esc # cs1 \<Rightarrow>
             if esc = CHR ''u'' then
               (case cs1 of
                  h1 # h2 # h3 # h4 # cs2 \<Rightarrow>
                    (case hex4 h1 h2 h3 h4 of
                       None \<Rightarrow> None
                     | Some n \<Rightarrow> if n < 256 then push_char (char_of n) (scanstring cs2) else None)
                | _ \<Rightarrow> None)
             else (case backslash esc of
                     None \<Rightarrow> None
                   | Some ch \<Rightarrow> push_char ch (scanstring cs1)))
      else if (of_char c :: nat) < 32 then None
      else push_char c (scanstring cs))"
text \<open>A decoded object: its members in the order read.\<close>

type_synonym json_object = "(string \<times> string) list"

definition skip_ws :: "string \<Rightarrow> string" where
  "skip_ws s = dropWhile (\<lambda>c. c = CHR '' '' \<or> c = CHR 0x09 \<or> c = CHR 0x0A \<or> c = CHR 0x0D) s"

lemma push_char_Some: "push_char c r = Some (s, rest) \<Longrightarrow> \<exists>s'. r = Some (s', rest) \<and> s = c # s'"
  by (auto simp: push_char_def split: option.splits)

lemma scanstring_shorter: "scanstring s = Some (r, rest) \<Longrightarrow> length rest < length s"
proof (induction s arbitrary: r rule: scanstring.induct)
  case 1
  then show ?case by simp
next
  case (2 c cs)
  show ?case
  proof (cases "c = CHR 0x22")
    case True
    then show ?thesis using "2.prems" by simp
  next
    case nq: False
    show ?thesis
    proof (cases "c = CHR 0x5C")
      case False
      then obtain s' where "scanstring cs = Some (s', rest)"
        using "2.prems" nq by (auto split: if_splits dest: push_char_Some)
      then have "length rest < length cs"
        using "2.IH"(3) nq False "2.prems" by (auto split: if_splits)
      then show ?thesis by simp
    next
      case bs: True
      then obtain esc cs1 where cs: "cs = esc # cs1"
        using "2.prems" nq by (cases cs) auto
      show ?thesis
      proof (cases "esc = CHR ''u''")
        case False
        then obtain ch s' where "backslash esc = Some ch" "scanstring cs1 = Some (s', rest)"
          using "2.prems" nq bs cs by (auto split: option.splits dest: push_char_Some)
        then have "length rest < length cs1"
          using "2.IH"(2) [OF nq bs cs False] by auto
        then show ?thesis using cs by simp
      next
        case True
        then obtain h1 h2 h3 h4 cs2 n s' where cs1: "cs1 = h1 # h2 # h3 # h4 # cs2"
          and h: "hex4 h1 h2 h3 h4 = Some n" "n < 256" and sc: "scanstring cs2 = Some (s', rest)"
          using "2.prems" nq bs cs
          by (auto split: list.splits option.splits if_splits dest: push_char_Some)
        have "length rest < length cs2"
          using "2.IH"(1) [OF nq bs cs True _ _ _ _ h] cs1 sc by auto
        then show ?thesis using cs cs1 by simp
      qed
    qed
  qed
qed

lemma skip_ws_length: "length (skip_ws s) \<le> length s"
  by (simp add: skip_ws_def length_dropWhile_le)

lemma skip_ws_Cons_length: "skip_ws s = c # t \<Longrightarrow> length t < length s"
  using skip_ws_length [of s] by simp

text \<open>
  The members of an object, from just after the opening quote of a member name to just
  after the closing brace.
\<close>

function parse_members :: "string \<Rightarrow> (json_object \<times> string) option" where
  "parse_members s =
     (case scanstring s of
        None \<Rightarrow> None
      | Some (key, s1) \<Rightarrow>
          (case skip_ws s1 of
             [] \<Rightarrow> None
           | colon # s2 \<Rightarrow>
               if colon \<noteq> CHR '':'' then None
               else
                 (case skip_ws s2 of
                    [] \<Rightarrow> None
                  | q # s3 \<Rightarrow>
                      if q \<noteq> CHR 0x22 then None
                      else
                        (case scanstring s3 of
                           None \<Rightarrow> None
                         | Some (val, s4) \<Rightarrow>
                             (case skip_ws s4 of
                                [] \<Rightarrow> None
                              | nextchar # s5 \<Rightarrow>
                                  if nextchar = CHR ''}'' then Some ([(key, val)], s5)
                                  else if nextchar \<noteq> CHR '','' then None
                                  else
                                    (case skip_ws s5 of
                                       [] \<Rightarrow> None
                                     | q' # s6 \<Rightarrow>
                                         if q' \<noteq> CHR 0x22 then None
                                         else (case parse_members s6 of
                                                 None \<Rightarrow> None
                                               | Some (pairs, rest) \<Rightarrow>
                                                   Some ((key, val) # pairs, rest))))))))"
  by pat_completeness auto
termination
proof (relation "measure length")
  show "wf (measure length)" by simp
next
  fix s x2 key s1 colon s2 q s3 y val s4 nextchar s5 q' s6
  assume "scanstring s = Some x2" "(key, s1) = x2" "skip_ws s1 = colon # s2"
    "skip_ws s2 = q # s3" "scanstring s3 = Some y" "(val, s4) = y"
    "skip_ws s4 = nextchar # s5" "skip_ws s5 = q' # s6"
  then have "length s1 < length s" "length s2 < length s1" "length s3 < length s2"
    "length s4 < length s3" "length s5 < length s4" "length s6 < length s5"
    by (auto dest: scanstring_shorter skip_ws_Cons_length)
  then show "(s6, s) \<in> measure length" by simp
qed

declare parse_members.simps [simp del]

definition parse_object :: "string \<Rightarrow> (json_object \<times> string) option" where
  "parse_object s =
     (case skip_ws s of
        [] \<Rightarrow> None
      | nextchar # s1 \<Rightarrow>
          if nextchar = CHR ''}'' then Some ([], s1)
          else if nextchar \<noteq> CHR 0x22 then None
          else parse_members s1)"

text \<open>\<open>raw_decode(s)\<close>: the object at the start of \<open>s\<close> and the index where it ends.\<close>

definition raw_decode :: "string \<Rightarrow> (json_object \<times> nat) option" where
  "raw_decode s =
     (case s of
        [] \<Rightarrow> None
      | c # s1 \<Rightarrow>
          if c \<noteq> CHR ''{'' then None
          else (case parse_object s1 of
                  None \<Rightarrow> None
                | Some (obj, rest) \<Rightarrow> Some (obj, length s - length rest)))"
text \<open>
  \<open>str.isspace()\<close> on the code points below 256, and \<open>buffer.find(c, k)\<close> with \<open>None\<close>
  for -1.
\<close>

definition py_isspace :: "char \<Rightarrow> bool" where
  "py_isspace c =
     (let n = of_char c :: nat
      in (9 \<le> n \<and> n \<le> 13) \<or> (28 \<le> n \<and> n \<le> 32) \<or> n = 133 \<or> n = 160)"

definition find_from :: "string \<Rightarrow> char \<Rightarrow> nat \<Rightarrow> nat option" where
  "find_from buffer c k =
     (if c \<in> set (drop k buffer)
      then Some (k + length (takeWhile (\<lambda>x. x \<noteq> c) (drop k buffer)))
      else None)"

lemma parse_members_shorter: "parse_members s = Some (obj, rest) \<Longrightarrow> length rest < length s"
proof (induction s arbitrary: obj rule: parse_members.induct)
  case (1 s)
  from "1.prems" obtain key s1 colon s2 q s3 val s4 nextchar s5 where
    a: "scanstring s = Some (key, s1)" "skip_ws s1 = colon # s2" "colon = CHR '':''"
       "skip_ws s2 = q # s3" "q = CHR 0x22" "scanstring s3 = Some (val, s4)"
       "skip_ws s4 = nextchar # s5"
    by (subst (asm) parse_members.simps) (auto split: option.splits list.splits if_splits)
  have len: "length s5 < length s"
    using a by (auto dest!: scanstring_shorter skip_ws_Cons_length)
  show ?case
  proof (cases "nextchar = CHR ''}''")
    case True
    then have "rest = s5"
      using "1.prems" a by (subst (asm) parse_members.simps) simp
    then show ?thesis using len by simp
  next
    case False
    then obtain q' s6 pairs where b: "skip_ws s5 = q' # s6" "q' = CHR 0x22"
      "parse_members s6 = Some (pairs, rest)" and comma: "nextchar = CHR '',''"
      using "1.prems" a
      by (subst (asm) parse_members.simps) (auto split: option.splits list.splits if_splits)
    have "length rest < length s6"
      using "1.IH" [OF a(1) refl a(2) _ a(4) _ a(6) refl a(7) False _ b(1) _ b(3)] a b False
        comma
      by (auto split: if_splits)
    moreover have "length s6 < length s5"
      using b(1) by (rule skip_ws_Cons_length)
    ultimately show ?thesis using len by simp
  qed
qed

lemma raw_decode_pos: "raw_decode s = Some (obj, n) \<Longrightarrow> 0 < n"
proof -
  assume a: "raw_decode s = Some (obj, n)"
  then obtain s1 rest where s: "s = CHR ''{'' # s1" and p: "parse_object s1 = Some (obj, rest)"
    and n: "n = length s - length rest"
    by (auto simp: raw_decode_def split: list.splits if_splits option.splits)
  have "length rest \<le> length s1"
  proof (cases "skip_ws s1")
    case Nil
    then show ?thesis using p by (simp add: parse_object_def)
  next
    case (Cons c t)
    then have t: "length t < length s1" by (rule skip_ws_Cons_length)
    show ?thesis
    proof (cases "c = CHR ''}''")
      case True
      then show ?thesis using p Cons t by (simp add: parse_object_def)
    next
      case False
      then have "parse_members t = Some (obj, rest)"
        using p Cons by (simp add: parse_object_def split: if_splits)
      then have "length rest < length t" by (rule parse_members_shorter)
      then show ?thesis using t by simp
    qed
  qed
  then show ?thesis using s n by simp
qed

lemma find_from_ge: "find_from buffer c k = Some j \<Longrightarrow> k \<le> j"
  by (auto simp: find_from_def split: if_splits)

text \<open>
  The \<open>while\<close> loop of \<open>SocketManager.process_buffer\<close>. \<open>handled\<close> collects the objects
  given to \<open>handle_message\<close>. A decode error drops all but the last 500 characters of a
  buffer with more than 1000 undecoded characters, and otherwise moves on to the next
  opening brace or stops.
\<close>

function process_buffer_loop ::
  "string \<Rightarrow> nat \<Rightarrow> json_object list \<Rightarrow> string \<times> nat \<times> json_object list"
where
  "process_buffer_loop buffer start_pos handled =
     (if start_pos < length buffer
      then
        (case raw_decode (drop start_pos buffer) of
           Some (obj, end_pos) \<Rightarrow>
             process_buffer_loop buffer
               (start_pos + end_pos
                  + length (takeWhile py_isspace (drop (start_pos + end_pos) buffer)))
               (handled @ [obj])
         | None \<Rightarrow>
             if length buffer - start_pos > 1000
             then process_buffer_loop (drop (length buffer - 500) buffer) 0 handled
             else (case find_from buffer (CHR ''{'') (start_pos + 1) of
                     Some next_open_brace \<Rightarrow> process_buffer_loop buffer next_open_brace handled
                   | None \<Rightarrow> (buffer, start_pos, handled)))
      else (buffer, start_pos, handled))"
  by pat_completeness auto
termination
proof (relation "measures [\<lambda>(buffer, start_pos, handled). if length buffer > 1000 then 1 else 0,
                           \<lambda>(buffer, start_pos, handled). length buffer - start_pos]")
  show "wf (measures [\<lambda>(buffer, start_pos, handled). if length buffer > 1000 then 1 else (0::nat),
                           \<lambda>(buffer, start_pos, handled). length buffer - start_pos])"
    by simp
next
  fix buffer :: string and start_pos :: nat and handled :: "json_object list" and x2 obj end_pos
  assume "start_pos < length buffer" "raw_decode (drop start_pos buffer) = Some x2"
    "(obj, end_pos) = x2"
  then have "0 < end_pos" by (auto dest: raw_decode_pos)
  then show "((buffer, start_pos + end_pos
                  + length (takeWhile py_isspace (drop (start_pos + end_pos) buffer)),
               handled @ [obj]), buffer, start_pos, handled)
         \<in> measures [\<lambda>(buffer, start_pos, handled). if length buffer > 1000 then 1 else 0,
                           \<lambda>(buffer, start_pos, handled). length buffer - start_pos]"
    using \<open>start_pos < length buffer\<close> by auto
next
  fix buffer :: string and start_pos :: nat and handled :: "json_object list"
  assume "start_pos < length buffer" "1000 < length buffer - start_pos"
  then show "((drop (length buffer - 500) buffer, 0, handled), buffer, start_pos, handled)
         \<in> measures [\<lambda>(buffer, start_pos, handled). if length buffer > 1000 then 1 else 0,
                           \<lambda>(buffer, start_pos, handled). length buffer - start_pos]"
    by auto
next
  fix buffer :: string and start_pos :: nat and handled :: "json_object list" and next_open_brace
  assume "start_pos < length buffer"
    "find_from buffer (CHR ''{'') (start_pos + 1) = Some next_open_brace"
  then have "start_pos + 1 \<le> next_open_brace" by (auto dest: find_from_ge)
  then show "((buffer, next_open_brace, handled), buffer, start_pos, handled)
         \<in> measures [\<lambda>(buffer, start_pos, handled). if length buffer > 1000 then 1 else 0,
                           \<lambda>(buffer, start_pos, handled). length buffer - start_pos]"
    using \<open>start_pos < length buffer\<close> by auto
qed

declare process_buffer_loop.simps [simp del]

text \<open>
  \<open>process_buffer\<close>: the buffer it leaves and the objects it handled.
\<close>

definition process_buffer :: "string \<Rightarrow> string \<times> json_object list" where
  "process_buffer buffer =
     (case process_buffer_loop buffer 0 [] of
        (buffer', start_pos, handled) \<Rightarrow>
          (if start_pos > 0 then drop start_pos buffer' else buffer', handled))"
text \<open>
  The dict of an event, member by member, and what the server has written to one
  client's socket: the frames, and the characters on the wire.
\<close>

definition dict_of_event :: "event \<Rightarrow> json_object" where
  "dict_of_event ev = [(''message'', message ev), (''status'', status ev)]"

definition frames_for :: "client_id \<Rightarrow> server \<Rightarrow> event list" where
  "frames_for c st = map snd (filter (\<lambda>f. fst f = c) (sent st))"

definition wire :: "client_id \<Rightarrow> server \<Rightarrow> string" where
  "wire c st = concat (map json_message (frames_for c st))"

section \<open>Example inputs\<close>

text \<open>
  A server with two connected clients, a start command with a three-item loadlist, and
  model classes whose second item fails, whose first item raises, and during whose
  calls a stop command arrives.
\<close>

definition item1 :: loadlist_item where
  "item1 = \<lparr>temperature = Some ''25C'', band = Some ''B1'', test_cases = [''gain flatness'']\<rparr>"
definition item2 :: loadlist_item where
  "item2 = \<lparr>temperature = Some ''85C'', band = Some ''B1'', test_cases = [''power sweep'']\<rparr>"
definition item3 :: loadlist_item where
  "item3 = \<lparr>temperature = Some ''85C'', band = Some ''B2'', test_cases = [''spur'']\<rparr>"

definition demo_config :: test_config where
  "demo_config = \<lparr>serial_number = Some ''SN1'', model = Some ''ModelC'', stage = Some ''S1'',
                   loadlist = Some [item1, item2, item3]\<rparr>"

definition idle_server :: server where
  "idle_server = \<lparr>clients = [''10.0.0.1:5000'', ''10.0.0.2:5000''], current_test = None,
                   test_running = False, current_model_instance = None, sent = [],
                   broadcasts = [], plugin_calls = [], stop_marks = []\<rparr>"

definition running_server :: server where
  "running_server = fst (start_test ''10.0.0.1:5000'' demo_config idle_server)"

definition demo_module :: "plugin \<Rightarrow> model_module" where
  "demo_module p cls = (if cls = ''ModelC'' then Some p else None)"

definition demo_loader :: "plugin \<Rightarrow> string \<Rightarrow> model_module option" where
  "demo_loader p name = (if name = ''ModelC'' then Some (demo_module p) else None)"

definition second_item_fails :: plugin where
  "second_item_fails =
     \<lparr>construct = ([], Returns ()),
      setup_plugin = ([Emit ''[ModelC] Setup completed successfully. Ready to execute loadlist.'' ''running''], Returns True),
      run_tests = (\<lambda>i x. ([], Returns (i \<noteq> 1))),
      cleanup = (\<lambda>k. ([Emit ''[ModelC] Cleanup complete.'' ''running''], Returns ()))\<rparr>"

definition first_item_raises :: plugin where
  "first_item_raises =
     \<lparr>construct = ([], Returns ()),
      setup_plugin = ([], Returns True),
      run_tests = (\<lambda>i x. if i = 0 then ([], Raises ''instrument timeout'') else ([], Returns True)),
      cleanup = (\<lambda>k. ([], Returns ()))\<rparr>"

definition stopped_then_cleanup_raises :: plugin where
  "stopped_then_cleanup_raises =
     \<lparr>construct = ([], Returns ()),
      setup_plugin = ([], Returns True),
      run_tests = (\<lambda>i x. ([Stop_cmd ''10.0.0.2:5000'', Emit ''[ModelC] Test stopped by user.'' ''stopped''], Returns False)),
      cleanup = (\<lambda>k. ([], Raises ''chamber offline''))\<rparr>"

definition fails_then_raises :: plugin where
  "fails_then_raises =
     \<lparr>construct = ([], Returns ()),
      setup_plugin = ([], Returns True),
      run_tests = (\<lambda>i x. if i = 0 then ([], Returns False) else ([], Raises ''instrument timeout'')),
      cleanup = (\<lambda>k. ([Emit ''[ModelC] Cleanup complete.'' ''running''], Returns ()))\<rparr>"

definition start_message :: command_message where
  "start_message = \<lparr>command = Some ''START'', cfg_of = Some demo_config\<rparr>"

definition stop_in_second_item :: plugin where
  "stop_in_second_item =
     \<lparr>construct = ([], Returns ()),
      setup_plugin = ([], Returns True),
      run_tests = (\<lambda>i x. if i = 1 then ([Stop_cmd ''10.0.0.2:5000''], Returns False)
                           else ([], Returns True)),
      cleanup = (\<lambda>k. ([], Returns ()))\<rparr>"

definition restart_in_first_item :: plugin where
  "restart_in_first_item =
     \<lparr>construct = ([], Returns ()),
      setup_plugin = ([], Returns True),
      run_tests = (\<lambda>i x. if i = 0
                           then ([Stop_cmd ''10.0.0.2:5000'',
                                  Start_cmd ''10.0.0.2:5000'' start_message], Returns True)
                           else ([], Returns True)),
      cleanup = (\<lambda>k. ([], Returns ()))\<rparr>"

definition stopped_server :: server where
  "stopped_server = stop_test ''10.0.0.2:5000'' running_server"

text \<open>
  Test methods as the placeholders of test_case_2.py behave, with a gain-flatness test
  that raises; and a small rules sheet with a definitions sheet.
\<close>

definition placeholder_methods :: "test_method \<Rightarrow> method_run" where
  "placeholder_methods m =
     (case m of
        Test_gain_flatness \<Rightarrow> ([], Raises ''power meter not found'')
      | Test_power_sweep \<Rightarrow> ([(''Executing Power Sweep test (placeholder)...'', ''running'')], Returns False)
      | Test_am_pm \<Rightarrow> ([(''Executing AM/PM test (placeholder)...'', ''running'')], Returns True)
      | Test_spur \<Rightarrow> ([(''Executing Spur test (placeholder)...'', ''running'')], Returns True))"

definition demo_rules :: "rule list" where
  "demo_rules =
     [\<lparr>ModelID = 0, BandID = 0, TemperatureID = 0, Priority = 9, TestCaseID = 4\<rparr>,
      \<lparr>ModelID = 1, BandID = 0, TemperatureID = 0, Priority = 2, TestCaseID = 1\<rparr>,
      \<lparr>ModelID = 1, BandID = 5, TemperatureID = 0, Priority = 2, TestCaseID = 3\<rparr>,
      \<lparr>ModelID = 0, BandID = 5, TemperatureID = 7, Priority = 2, TestCaseID = 1\<rparr>,
      \<lparr>ModelID = 2, BandID = 5, TemperatureID = 7, Priority = 1, TestCaseID = 2\<rparr>]"

definition demo_defs_table :: "testcase_def list" where
  "demo_defs_table =
     [\<lparr>ID = 1, TestCaseName = ''Gain Flatness''\<rparr>,
      \<lparr>ID = 2, TestCaseName = ''Power Sweep''\<rparr>,
      \<lparr>ID = 3, TestCaseName = ''AM/PM''\<rparr>,
      \<lparr>ID = 4, TestCaseName = ''Spur''\<rparr>]"

text \<open>
  An event whose message holds braces, quotes, a backslash, a newline and a degree sign.
\<close>

definition tricky_event :: event where
  "tricky_event = \<lparr>message = ''Retrieved specs: {'' @ [CHR 0x27] @ ''span'' @ [CHR 0x27]
                               @ '': '' @ [CHR 0x22] @ ''2.5G'' @ [CHR 0x22, CHR 0x5C, CHR 0x0A, CHR 0xB0] @ ''}'',
                   status = ''running''\<rparr>"

definition idle_event :: event where
  "idle_event = \<lparr>message = ''No test currently running'', status = ''idle''\<rparr>"

section \<open>Definitions used in the proofs\<close>

text \<open>
  The invariant of the worker about stop commands: a message of \<open>stop_test\<close> that was
  broadcast after the first \<open>base\<close> messages is the last message, and the server is no
  longer running.
\<close>

definition stop_event :: event where
  "stop_event = \<lparr>message = ''Test stopped by user request'', status = ''stopped''\<rparr>"

definition marks_ok :: "nat \<Rightarrow> server \<Rightarrow> bool" where
  "marks_ok base st =
     (base \<le> length (broadcasts st)
      \<and> (\<forall>k\<in>set (stop_marks st).
            k < base \<or> (\<not> test_running st \<and> Suc k = length (broadcasts st)
                         \<and> broadcasts st ! k = stop_event)))"

definition error_event :: "string \<Rightarrow> event" where
  "error_event e = \<lparr>message = ''Test execution error: '' @ e, status = ''error''\<rparr>"

definition quiet_after :: "nat \<Rightarrow> string option \<Rightarrow> server \<Rightarrow> bool" where
  "quiet_after base raised st =
     (\<forall>k\<in>set (stop_marks st). base \<le> k \<longrightarrow>
        k < length (broadcasts st) \<and> broadcasts st ! k = stop_event
        \<and> (drop (Suc k) (broadcasts st) = []
           \<or> (\<exists>e. raised = Some e \<and> drop (Suc k) (broadcasts st) = [error_event e])))"

text \<open>The state in which the loop starts, when the class is found, built and set up.\<close>

definition prepared :: "plugin \<Rightarrow> string \<Rightarrow> server \<Rightarrow> server" where
  "prepared inst name st =
     snd (invoke Call_setup (setup_plugin inst)
            (status_callback (''Setting up '' @ name @ '' test environment...'') ''running''
               ((snd (invoke Call_init (construct inst) st))\<lparr>current_model_instance := Some inst\<rparr>)))"

section \<open>Basic facts\<close>

lemma send_to_client_fields [simp]:
  "clients (send_to_client c ev st) = clients st"
  "current_test (send_to_client c ev st) = current_test st"
  "test_running (send_to_client c ev st) = test_running st"
  "current_model_instance (send_to_client c ev st) = current_model_instance st"
  "broadcasts (send_to_client c ev st) = broadcasts st"
  "plugin_calls (send_to_client c ev st) = plugin_calls st"
  "stop_marks (send_to_client c ev st) = stop_marks st"
  "sent (send_to_client c ev st) = sent st @ [(c, ev)]"
  by (simp_all add: send_to_client_def)

lemma fold_send_fields:
  "clients (fold (\<lambda>c. send_to_client c ev) cs st) = clients st"
  "current_test (fold (\<lambda>c. send_to_client c ev) cs st) = current_test st"
  "test_running (fold (\<lambda>c. send_to_client c ev) cs st) = test_running st"
  "current_model_instance (fold (\<lambda>c. send_to_client c ev) cs st) = current_model_instance st"
  "broadcasts (fold (\<lambda>c. send_to_client c ev) cs st) = broadcasts st"
  "plugin_calls (fold (\<lambda>c. send_to_client c ev) cs st) = plugin_calls st"
  "stop_marks (fold (\<lambda>c. send_to_client c ev) cs st) = stop_marks st"
  "sent (fold (\<lambda>c. send_to_client c ev) cs st) = sent st @ map (\<lambda>c. (c, ev)) cs"
  by (induction cs arbitrary: st; simp)+

lemma broadcast_fields [simp]:
  "clients (broadcast_to_all_clients ev st) = clients st"
  "current_test (broadcast_to_all_clients ev st) = current_test st"
  "test_running (broadcast_to_all_clients ev st) = test_running st"
  "current_model_instance (broadcast_to_all_clients ev st) = current_model_instance st"
  "broadcasts (broadcast_to_all_clients ev st) = broadcasts st @ [ev]"
  "plugin_calls (broadcast_to_all_clients ev st) = plugin_calls st"
  "stop_marks (broadcast_to_all_clients ev st) = stop_marks st"
  "sent (broadcast_to_all_clients ev st) = sent st @ map (\<lambda>c. (c, ev)) (clients st)"
  by (simp_all add: broadcast_to_all_clients_def fold_send_fields)

lemma status_callback_fields [simp]:
  "clients (status_callback m s st) = clients st"
  "current_test (status_callback m s st) = current_test st"
  "test_running (status_callback m s st) = test_running st"
  "current_model_instance (status_callback m s st) = current_model_instance st"
  "plugin_calls (status_callback m s st) = plugin_calls st"
  "stop_marks (status_callback m s st) = stop_marks st"
  by (simp_all add: status_callback_def)

lemma handle_stop_fields [simp]:
  "clients (handle_stop_command c st) = clients st"
  "\<not> test_running (handle_stop_command c st)"
  "current_model_instance (handle_stop_command c st) = current_model_instance st"
  "plugin_calls (handle_stop_command c st) = plugin_calls st"
  by (simp_all add: handle_stop_command_def stop_test_def Let_def)

lemma handle_start_fields [simp]:
  "clients (fst (handle_start_command c m st)) = clients st"
  "current_model_instance (fst (handle_start_command c m st)) = current_model_instance st"
  "plugin_calls (fst (handle_start_command c m st)) = plugin_calls st"
  "stop_marks (fst (handle_start_command c m st)) = stop_marks st"
  by (simp_all add: handle_start_command_def start_test_def start_failed_def Let_def
        split: option.splits)

lemma perform_fields [simp]:
  "clients (perform acts st) = clients st"
  "current_model_instance (perform acts st) = current_model_instance st"
  "plugin_calls (perform acts st) = plugin_calls st"
  by (induction acts st rule: perform.induct; simp)+

lemma reports_only_no_stop: "reports_only acts \<Longrightarrow> no_stop acts"
  by (induction acts) (auto simp: reports_only_def no_stop_def split: action.splits)

lemma reports_only_no_start: "reports_only acts \<Longrightarrow> no_start acts"
  by (induction acts) (auto simp: reports_only_def no_start_def split: action.splits)

lemma perform_running:
  "no_start acts \<Longrightarrow> test_running (perform acts st) = (test_running st \<and> no_stop acts)"
  by (induction acts st rule: perform.induct) (auto simp: no_start_def no_stop_def)

lemma perform_reports_only:
  "reports_only acts \<Longrightarrow> test_running (perform acts st) = test_running st"
  by (simp add: perform_running reports_only_no_stop reports_only_no_start)

lemma perform_stopped:
  "no_start acts \<Longrightarrow> \<not> test_running st \<Longrightarrow> broadcasts (perform acts st) = broadcasts st"
  "no_start acts \<Longrightarrow> \<not> test_running st \<Longrightarrow> stop_marks (perform acts st) = stop_marks st"
  by (induction acts st rule: perform.induct;
      simp add: status_callback_def handle_stop_command_def no_start_def)+

lemma invoke_eq:
  "invoke c k st = (snd k, (perform (fst k) st)\<lparr>plugin_calls := plugin_calls st @ [c]\<rparr>)"
  by (simp add: invoke_def)

lemma invoked_items_append [simp]:
  "invoked_items (a @ b) = invoked_items a @ invoked_items b"
  by (induction a rule: invoked_items.induct) simp_all

lemma loop_stopped:
  "\<not> test_running st \<Longrightarrow>
   loadlist_loop inst n ixs ok st = (Returns (ixs = [] \<and> ok), st)"
  by (cases ixs) (auto simp: status_callback_def)

lemma loop_calls:
  "test_running st \<Longrightarrow>
   list_all (\<lambda>ix. no_start (fst (run_tests inst (fst ix) (snd ix)))) ixs \<Longrightarrow>
   invoked_items (plugin_calls (snd (loadlist_loop inst n ixs ok st)))
   = invoked_items (plugin_calls st)
     @ map snd (take (Suc (length (takeWhile (continues inst) ixs))) ixs)"
proof (induction ixs arbitrary: ok st)
  case Nil
  then show ?case by simp
next
  case (Cons ix rest)
  obtain i x where ix: "ix = (i, x)" by (cases ix)
  obtain acts out where call: "run_tests inst i x = (acts, out)" by (cases "run_tests inst i x")
  have ns: "no_start acts" and ns_rest: "list_all (\<lambda>ix. no_start (fst (run_tests inst (fst ix) (snd ix)))) rest"
    using Cons.prems(2) ix call by simp_all
  let ?st1 = "status_callback (running_item_message i n x) ''running'' st"
  let ?st2 = "(perform acts ?st1)\<lparr>plugin_calls := plugin_calls st @ [Call_run_tests x]\<rparr>"
  show ?case
  proof (cases out)
    case (Raises e)
    then show ?thesis
      using Cons.prems(1) ix call by (simp add: invoke_eq continues_def Let_def)
  next
    case (Returns b)
    show ?thesis
    proof (cases "no_stop acts")
      case True
      then have run: "test_running ?st2"
        using Cons.prems(1) ns by (simp add: perform_running)
      have cont: "continues inst ix"
        using True Returns ix call by (simp add: continues_def)
      show ?thesis
        using Cons.prems(1) ix call Returns cont run ns_rest
          Cons.IH [of ?st2 ok]
          Cons.IH [of "status_callback (failed_item_message x) ''error'' ?st2" False]
        by (simp add: invoke_eq Let_def)
    next
      case False
      then have stopped: "\<not> test_running ?st2"
        using ns by (simp add: perform_running)
      have cont: "\<not> continues inst ix"
        using False ix call by (simp add: continues_def)
      show ?thesis
        using Cons.prems(1) ix call Returns cont stopped
        by (simp add: invoke_eq loop_stopped Let_def)
    qed
  qed
qed

section \<open>The stop invariant\<close>

lemma marks_ok_same:
  "broadcasts s' = broadcasts s \<Longrightarrow> stop_marks s' = stop_marks s \<Longrightarrow>
   test_running s' = test_running s \<Longrightarrow> marks_ok b s \<Longrightarrow> marks_ok b s'"
  by (simp add: marks_ok_def)

lemma marks_ok_broadcast:
  "test_running s \<Longrightarrow> marks_ok b s \<Longrightarrow> marks_ok b (broadcast_to_all_clients ev s)"
  by (auto simp: marks_ok_def)

lemma marks_ok_callback: "marks_ok b s \<Longrightarrow> marks_ok b (status_callback m t s)"
  by (simp add: status_callback_def marks_ok_broadcast)

lemma marks_ok_stop: "marks_ok b s \<Longrightarrow> marks_ok b (handle_stop_command c s)"
  by (auto simp: marks_ok_def handle_stop_command_def stop_test_def Let_def stop_event_def nth_append)

lemma marks_ok_perform: "no_start acts \<Longrightarrow> marks_ok b s \<Longrightarrow> marks_ok b (perform acts s)"
  by (induction acts s rule: perform.induct)
     (simp_all add: marks_ok_callback marks_ok_stop no_start_def)

lemma marks_ok_invoke: "no_start (fst k) \<Longrightarrow> marks_ok b s \<Longrightarrow> marks_ok b (snd (invoke c k s))"
proof -
  assume "no_start (fst k)" "marks_ok b s"
  then have "marks_ok b (perform (fst k) s)" by (rule marks_ok_perform)
  then show ?thesis by (simp add: invoke_eq marks_ok_def)
qed

lemma marks_ok_loop:
  "(\<And>i x. no_start (fst (run_tests inst i x))) \<Longrightarrow> marks_ok b s \<Longrightarrow>
   marks_ok b (snd (loadlist_loop inst n ixs ok s))"
proof (induction inst n ixs ok s rule: loadlist_loop.induct)
  case (1 inst n ok st)
  then show ?case by simp
next
  case (2 inst n i x rest ok st)
  let ?st1 = "status_callback (running_item_message i n x) ''running'' st"
  have ns: "no_start (fst (run_tests inst i x))" by (rule "2.prems"(1))
  have m2: "marks_ok b (snd (invoke (Call_run_tests x) (run_tests inst i x) ?st1))"
    using "2.prems"(2) ns by (simp add: marks_ok_invoke marks_ok_callback)
  show ?case
  proof (cases "test_running st")
    case False
    then show ?thesis using "2.prems"(2) by (simp add: marks_ok_callback)
  next
    case True
    obtain out st2 where inv: "invoke (Call_run_tests x) (run_tests inst i x) ?st1 = (out, st2)"
      by (cases "invoke (Call_run_tests x) (run_tests inst i x) ?st1")
    with m2 have m2': "marks_ok b st2" by simp
    show ?thesis
    proof (cases out)
      case (Raises e)
      then show ?thesis using True inv m2' by simp
    next
      case (Returns r)
      show ?thesis
      proof (cases r)
        case True
        with "2.IH"(2) [OF _ refl inv [symmetric]] "2.prems"(1) Returns \<open>test_running st\<close> inv m2'
        show ?thesis by simp
      next
        case False
        with "2.IH"(1) [OF _ refl inv [symmetric]] "2.prems"(1) Returns \<open>test_running st\<close> inv m2'
        show ?thesis by (simp add: marks_ok_callback)
      qed
    qed
  qed
qed

lemma marks_ok_upd [simp]:
  "marks_ok b (s\<lparr>current_model_instance := x\<rparr>) = marks_ok b s"
  by (simp add: marks_ok_def)

lemma marks_ok_final_report: "marks_ok b s \<Longrightarrow> marks_ok b (snd (final_report cfg ok s))"
  by (simp add: final_report_def marks_ok_broadcast split: option.splits)

lemma marks_ok_after_loop:
  "no_start (fst (cleanup inst 0)) \<Longrightarrow> marks_ok b s \<Longrightarrow>
   marks_ok b (snd (after_loop inst name cfg ok s))"
proof -
  assume ns: "no_start (fst (cleanup inst 0))" and m: "marks_ok b s"
  let ?st1 = "status_callback (''Cleaning up '' @ name @ '' test environment...'') ''running'' s"
  have "marks_ok b (snd (invoke Call_cleanup (cleanup inst 0) ?st1))"
    using m ns by (simp add: marks_ok_invoke marks_ok_callback)
  then show ?thesis
    by (auto simp: after_loop_def Let_def marks_ok_final_report split: prod.splits outcome.splits)
qed

lemma marks_ok_try_body:
  "no_restart loader name \<Longrightarrow> marks_ok b s \<Longrightarrow> marks_ok b (snd (try_body loader name cfg s))"
proof -
  assume nr: "no_restart loader name" and m: "marks_ok b s"
  show ?thesis
  proof (cases "loader name")
    case None
    then show ?thesis using m by (simp add: try_body_def)
  next
    case (Some md)
    show ?thesis
    proof (cases "md (model_class_name name)")
      case None
      then show ?thesis using m Some by (simp add: try_body_def)
    next
      case (Some inst)
      let ?s1 = "snd (invoke Call_init (construct inst) s)"
      let ?s3 = "status_callback (''Setting up '' @ name @ '' test environment...'') ''running''
                   (?s1\<lparr>current_model_instance := Some inst\<rparr>)"
      let ?s4 = "snd (invoke Call_setup (setup_plugin inst) ?s3)"
      let ?items = "case loadlist cfg of None \<Rightarrow> [] | Some l \<Rightarrow> l"
      let ?s5 = "snd (loadlist_loop inst (length ?items) (enumerate 0 ?items) True ?s4)"
      have nsd: "no_start_during inst"
        using nr \<open>loader name = Some md\<close> Some by (simp add: no_restart_def)
      have m1: "marks_ok b ?s1"
        using nsd m by (simp add: marks_ok_invoke no_start_during_def)
      then have m3: "marks_ok b ?s3" by (simp add: marks_ok_callback)
      then have m4: "marks_ok b ?s4"
        using nsd by (simp add: marks_ok_invoke no_start_during_def)
      then have m5: "marks_ok b ?s5"
        using nsd by (simp add: marks_ok_loop no_start_during_def)
      have m6: "marks_ok b (snd (after_loop inst name cfg ov ?s5))" for ov
        using m5 nsd by (simp add: marks_ok_after_loop no_start_during_def)
      show ?thesis
        using \<open>loader name = Some md\<close> Some m1 m4 m5 m6
        by (auto simp: try_body_def Let_def split: prod.splits outcome.splits)
    qed
  qed
qed

lemma marks_ok_quiet: "marks_ok b s \<Longrightarrow> quiet_after b r s"
  by (auto simp: marks_ok_def quiet_after_def)

lemma quiet_on_exception:
  assumes "marks_ok b s"
    and "case current_model_instance s of None \<Rightarrow> True | Some p \<Rightarrow> no_start_during p"
  shows "quiet_after b (Some e) (on_exception e s)"
proof -
  let ?s1 = "broadcast_to_all_clients
               \<lparr>message = ''Test execution error: '' @ e, status = ''error''\<rparr> s"
  have q1: "quiet_after b (Some e) ?s1"
    using assms(1) by (auto simp: marks_ok_def quiet_after_def nth_append error_event_def)
  have q2: "quiet_after b (Some e) (snd (invoke c k ?s1))"
    if ns: "no_start (fst k)" for c and k :: "unit call"
  proof (cases "test_running s")
    case True
    have "marks_ok b ?s1" using True assms(1) by (rule marks_ok_broadcast)
    then have "marks_ok b (snd (invoke c k ?s1))" using ns by (simp add: marks_ok_invoke)
    then show ?thesis by (rule marks_ok_quiet)
  next
    case False
    then show ?thesis
      using q1 ns by (simp add: invoke_eq quiet_after_def perform_stopped)
  qed
  show ?thesis
  proof (cases "current_model_instance s")
    case None
    then show ?thesis using q1 by (simp add: on_exception_def Let_def)
  next
    case (Some inst)
    have "no_start (fst (cleanup inst (length (filter (\<lambda>c. c = Call_cleanup) (plugin_calls s)))))"
      using assms(2) Some by (simp add: no_start_during_def)
    then show ?thesis
      using Some q2 [of "cleanup inst (length (filter (\<lambda>c. c = Call_cleanup) (plugin_calls s)))" Call_cleanup]
      by (simp add: on_exception_def Let_def)
  qed
qed

lemma quiet_after_reset [simp]: "quiet_after b r (finally_reset s) = quiet_after b r s"
  by (simp add: quiet_after_def finally_reset_def)

lemma loop_instance [simp]:
  "current_model_instance (snd (loadlist_loop inst n ixs ok s)) = current_model_instance s"
  by (induction inst n ixs ok s rule: loadlist_loop.induct)
     (auto simp: invoke_eq Let_def split: prod.splits outcome.splits)

lemma try_body_resolved:
  assumes "loader name = Some md" "md (model_class_name name) = Some inst"
  shows "try_body loader name cfg st =
     (case snd (construct inst) of
        Raises e \<Rightarrow> (Raises e, snd (invoke Call_init (construct inst) st))
      | Returns u \<Rightarrow>
         (case snd (setup_plugin inst) of
            Raises e \<Rightarrow> (Raises e, prepared inst name st)
          | Returns ok \<Rightarrow>
              if \<not> ok then (Raises (''Setup failed for '' @ name), prepared inst name st)
              else (case loadlist_loop inst (length (case loadlist cfg of None \<Rightarrow> [] | Some l \<Rightarrow> l))
                           (enumerate 0 (case loadlist cfg of None \<Rightarrow> [] | Some l \<Rightarrow> l)) True
                           (prepared inst name st) of
                      (Raises e, st5) \<Rightarrow> (Raises e, st5)
                    | (Returns ov, st5) \<Rightarrow> after_loop inst name cfg ov st5)))"
  using assms
  by (simp add: try_body_def prepared_def invoke_def Let_def split: prod.splits outcome.splits)

lemma after_loop_instance:
  "current_model_instance (snd (after_loop inst name cfg ok s)) = None
   \<or> current_model_instance (snd (after_loop inst name cfg ok s)) = current_model_instance s"
  by (auto simp: after_loop_def final_report_def invoke_eq Let_def
           split: prod.splits outcome.splits option.splits)

lemma try_body_instance:
  assumes "current_model_instance st = None"
  shows "case current_model_instance (snd (try_body loader name cfg st)) of
           None \<Rightarrow> True
         | Some p \<Rightarrow> \<exists>md. loader name = Some md \<and> md (model_class_name name) = Some p"
proof (cases "loader name")
  case None
  then show ?thesis using assms by (simp add: try_body_def)
next
  case (Some md)
  show ?thesis
  proof (cases "md (model_class_name name)")
    case None
    then show ?thesis using assms Some by (simp add: try_body_def)
  next
    case inst: (Some inst)
    let ?p = "prepared inst name st"
    let ?items = "case loadlist cfg of None \<Rightarrow> [] | Some l \<Rightarrow> l"
    obtain out s5 where
      loop: "loadlist_loop inst (length ?items) (enumerate 0 ?items) True ?p = (out, s5)"
      by (cases "loadlist_loop inst (length ?items) (enumerate 0 ?items) True ?p")
    have i1: "current_model_instance (snd (invoke Call_init (construct inst) st)) = None"
      using assms by (simp add: invoke_eq)
    have ip: "current_model_instance ?p = Some inst"
      by (simp add: prepared_def invoke_eq)
    have i5: "current_model_instance s5 = Some inst"
      using loop_instance [of inst "length ?items" "enumerate 0 ?items" True ?p] loop ip by simp
    have i6: "current_model_instance (snd (after_loop inst name cfg ov s5)) = None
              \<or> current_model_instance (snd (after_loop inst name cfg ov s5)) = Some inst" for ov
      using after_loop_instance [of inst name cfg ov s5] i5 by simp
    have "current_model_instance (snd (try_body loader name cfg st)) = None
          \<or> current_model_instance (snd (try_body loader name cfg st)) = Some inst"
      using i1 ip i5 i6 loop
      by (cases out) (auto simp: try_body_resolved [of loader name md inst, OF Some inst]
                           split: outcome.splits)
    then show ?thesis
      using Some inst by auto
  qed
qed

lemma execute_quiet:
  assumes "\<forall>k\<in>set (stop_marks st). k < length (broadcasts st)"
    and "current_model_instance st = None"
    and "no_restart loader name"
  shows "quiet_after (length (broadcasts st))
           (case fst (try_body loader name cfg st) of Returns ov \<Rightarrow> None | Raises e \<Rightarrow> Some e)
           (snd (execute_model_test loader name cfg st))"
proof -
  have "marks_ok (length (broadcasts st)) st"
    using assms(1) by (auto simp: marks_ok_def)
  then have m: "marks_ok (length (broadcasts st)) (snd (try_body loader name cfg st))"
    using assms(3) by (simp add: marks_ok_try_body)
  have i: "case current_model_instance (snd (try_body loader name cfg st)) of
             None \<Rightarrow> True | Some p \<Rightarrow> no_start_during p"
    using try_body_instance [OF assms(2), of loader name cfg] assms(3)
    by (auto simp: no_restart_def split: option.splits)
  show ?thesis
  proof (cases "try_body loader name cfg st")
    case (Pair out s1)
    then show ?thesis
      using m i by (cases out) (simp_all add: execute_model_test_def marks_ok_quiet quiet_on_exception)
  qed
qed

section \<open>The calls of a run\<close>

lemma invoked_after_loop [simp]:
  "invoked_items (plugin_calls (snd (after_loop inst name cfg ok s))) = invoked_items (plugin_calls s)"
  by (auto simp: after_loop_def invoke_eq final_report_def Let_def split: outcome.splits option.splits prod.splits)

lemma invoked_on_exception [simp]:
  "invoked_items (plugin_calls (on_exception e s)) = invoked_items (plugin_calls s)"
  by (simp add: on_exception_def invoke_eq Let_def split: option.splits)

lemma finally_reset_fields [simp]:
  "plugin_calls (finally_reset s) = plugin_calls s"
  "broadcasts (finally_reset s) = broadcasts s"
  "stop_marks (finally_reset s) = stop_marks s"
  "\<not> test_running (finally_reset s)"
  "current_test (finally_reset s) = None"
  "current_model_instance (finally_reset s) = None"
  by (simp_all add: finally_reset_def)

lemma execute_cases:
  "execute_model_test loader name cfg st =
     (case fst (try_body loader name cfg st) of
        Returns ov \<Rightarrow> (ov, finally_reset (snd (try_body loader name cfg st)))
      | Raises e \<Rightarrow> (False, finally_reset (on_exception e (snd (try_body loader name cfg st)))))"
  by (simp add: execute_model_test_def split: prod.splits outcome.splits)

lemma loop_calls_prefix:
  "\<exists>k. invoked_items (plugin_calls (snd (loadlist_loop inst n ixs ok st)))
        = invoked_items (plugin_calls st) @ map snd (take k ixs)"
proof (induction ixs arbitrary: ok st)
  case Nil
  then show ?case by simp
next
  case (Cons ix rest)
  obtain i x where ix: "ix = (i, x)" by (cases ix)
  obtain acts out where call: "run_tests inst i x = (acts, out)" by (cases "run_tests inst i x")
  let ?st1 = "status_callback (running_item_message i n x) ''running'' st"
  let ?st2 = "(perform acts ?st1)\<lparr>plugin_calls := plugin_calls st @ [Call_run_tests x]\<rparr>"
  show ?case
  proof (cases "test_running st")
    case False
    then have "invoked_items (plugin_calls (snd (loadlist_loop inst n (ix # rest) ok st)))
        = invoked_items (plugin_calls st) @ map snd (take 0 (ix # rest))"
      by (simp add: loop_stopped)
    then show ?thesis by blast
  next
    case True
    show ?thesis
    proof (cases out)
      case (Raises e)
      then have "invoked_items (plugin_calls (snd (loadlist_loop inst n (ix # rest) ok st)))
          = invoked_items (plugin_calls st) @ map snd (take 1 (ix # rest))"
        using True ix call by (simp add: invoke_eq Let_def)
      then show ?thesis by blast
    next
      case (Returns b)
      obtain ok' st' where next_loop: "loadlist_loop inst n (ix # rest) ok st = loadlist_loop inst n rest ok' st'"
        and calls': "plugin_calls st' = plugin_calls st @ [Call_run_tests x]"
        using True ix call Returns by (cases b) (simp_all add: invoke_eq Let_def)
      obtain k where "invoked_items (plugin_calls (snd (loadlist_loop inst n rest ok' st')))
          = invoked_items (plugin_calls st') @ map snd (take k rest)"
        using Cons.IH by blast
      then have "invoked_items (plugin_calls (snd (loadlist_loop inst n (ix # rest) ok st)))
          = invoked_items (plugin_calls st) @ map snd (take (Suc k) (ix # rest))"
        using next_loop calls' ix by simp
      then show ?thesis by blast
    qed
  qed
qed

lemma take_enumerate: "map snd (take k (enumerate 0 items)) = take k items"
  by (simp add: take_map [symmetric])

lemma prepared_calls [simp]:
  "invoked_items (plugin_calls (prepared inst name st)) = invoked_items (plugin_calls st)"
  by (simp add: prepared_def invoke_eq)

lemma invoked_invoke_init [simp]:
  "invoked_items (plugin_calls (snd (invoke Call_init k st))) = invoked_items (plugin_calls st)"
  by (simp add: invoke_eq)

lemma prepared_running:
  "test_running st \<Longrightarrow> reports_only (fst (construct inst)) \<Longrightarrow>
   reports_only (fst (setup_plugin inst)) \<Longrightarrow> test_running (prepared inst name st)"
  by (simp add: prepared_def invoke_eq perform_reports_only)

lemma try_body_calls_prefix:
  "\<exists>k. invoked_items (plugin_calls (snd (try_body loader name cfg st)))
        = invoked_items (plugin_calls st) @ take k (case loadlist cfg of None \<Rightarrow> [] | Some l \<Rightarrow> l)"
proof (cases "loader name")
  case None
  then have "invoked_items (plugin_calls (snd (try_body loader name cfg st)))
        = invoked_items (plugin_calls st) @ take 0 (case loadlist cfg of None \<Rightarrow> [] | Some l \<Rightarrow> l)"
    by (simp add: try_body_def)
  then show ?thesis by blast
next
  case (Some md)
  show ?thesis
  proof (cases "md (model_class_name name)")
    case None
    then have "invoked_items (plugin_calls (snd (try_body loader name cfg st)))
        = invoked_items (plugin_calls st) @ take 0 (case loadlist cfg of None \<Rightarrow> [] | Some l \<Rightarrow> l)"
      using Some by (simp add: try_body_def)
    then show ?thesis by blast
  next
    case inst: (Some inst)
    let ?items = "case loadlist cfg of None \<Rightarrow> [] | Some l \<Rightarrow> l"
    obtain k where k: "invoked_items (plugin_calls (snd (loadlist_loop inst (length ?items)
         (enumerate 0 ?items) True (prepared inst name st))))
        = invoked_items (plugin_calls st) @ take k ?items"
      using loop_calls_prefix [of inst "length ?items" "enumerate 0 ?items" True "prepared inst name st"]
      by (auto simp: take_enumerate)
    have "invoked_items (plugin_calls (snd (try_body loader name cfg st)))
            = invoked_items (plugin_calls st) @ take 0 ?items
          \<or> invoked_items (plugin_calls (snd (try_body loader name cfg st)))
            = invoked_items (plugin_calls st) @ take k ?items"
      using k by (auto simp: try_body_resolved [of loader name md inst, OF Some inst] split: outcome.splits prod.splits)
    then show ?thesis by blast
  qed
qed

lemma loop_results:
  assumes "test_running st"
    and "list_all (\<lambda>ix. reports_only (fst (run_tests inst (fst ix) (snd ix)))) ixs"
    and "map (\<lambda>ix. snd (run_tests inst (fst ix) (snd ix))) ixs = map Returns results"
  shows "fst (loadlist_loop inst n ixs ok st) = Returns (ok \<and> list_all (\<lambda>r. r) results)
         \<and> test_running (snd (loadlist_loop inst n ixs ok st))"
  using assms
proof (induction ixs arbitrary: ok st results)
  case Nil
  then show ?case by simp
next
  case (Cons ix rest)
  obtain i x where ix: "ix = (i, x)" by (cases ix)
  obtain r rs where results: "results = r # rs"
    using Cons.prems(3) by (cases results) auto
  obtain acts where call: "run_tests inst i x = (acts, Returns r)" and quiet: "reports_only acts"
    using Cons.prems(2,3) ix results by (cases "run_tests inst i x") auto
  let ?st1 = "status_callback (running_item_message i n x) ''running'' st"
  let ?st2 = "(perform acts ?st1)\<lparr>plugin_calls := plugin_calls st @ [Call_run_tests x]\<rparr>"
  have run: "test_running ?st2"
    using Cons.prems(1) quiet by (simp add: perform_reports_only)
  have rest1: "list_all (\<lambda>ix. reports_only (fst (run_tests inst (fst ix) (snd ix)))) rest"
    using Cons.prems(2) by simp
  have rest2: "map (\<lambda>ix. snd (run_tests inst (fst ix) (snd ix))) rest = map Returns rs"
    using Cons.prems(3) results by simp
  show ?case
    using Cons.prems(1) ix call run results
      Cons.IH [of ?st2 rs ok, OF run rest1 rest2]
      Cons.IH [of "status_callback (failed_item_message x) ''error'' ?st2" rs False, OF _ rest1 rest2]
    by (auto simp: invoke_eq Let_def)
qed

lemma loop_calls_all:
  assumes "test_running st"
    and "list_all (\<lambda>ix. reports_only (fst (run_tests inst (fst ix) (snd ix)))) ixs"
    and "map (\<lambda>ix. snd (run_tests inst (fst ix) (snd ix))) ixs = map Returns results"
  shows "invoked_items (plugin_calls (snd (loadlist_loop inst n ixs ok st)))
         = invoked_items (plugin_calls st) @ map snd ixs"
proof -
  have "continues inst ix" if "ix \<in> set ixs" for ix
  proof -
    have "snd (run_tests inst (fst ix) (snd ix)) \<in> set (map Returns results)"
      using that assms(3) [symmetric] by auto
    then show ?thesis
      using that assms(2) by (auto simp: continues_def list_all_iff reports_only_no_stop)
  qed
  then have tw: "takeWhile (continues inst) ixs = ixs"
    by (simp add: takeWhile_eq_all_conv)
  have ns: "list_all (\<lambda>ix. no_start (fst (run_tests inst (fst ix) (snd ix)))) ixs"
    using assms(2) by (auto simp: list_all_iff reports_only_no_start)
  have "invoked_items (plugin_calls (snd (loadlist_loop inst n ixs ok st)))
         = invoked_items (plugin_calls st) @ map snd (take (Suc (length ixs)) ixs)"
    using loop_calls [OF assms(1) ns, of n ok] by (simp only: tw)
  then show ?thesis by simp
qed

text \<open>
  The loop leaves \<open>overall_success\<close> true only when it was true before, every item was
  handed to \<open>run_tests\<close>, and every call returned true.
\<close>

lemma loop_true:
  "fst (loadlist_loop inst n ixs ok st) = Returns True \<Longrightarrow>
   ok \<and> list_all (\<lambda>ix. snd (run_tests inst (fst ix) (snd ix)) = Returns True) ixs
   \<and> invoked_items (plugin_calls (snd (loadlist_loop inst n ixs ok st)))
       = invoked_items (plugin_calls st) @ map snd ixs"
proof (induction ixs arbitrary: ok st)
  case Nil
  then show ?case by simp
next
  case (Cons ix rest)
  obtain i x where ix: "ix = (i, x)" by (cases ix)
  obtain acts out where call: "run_tests inst i x = (acts, out)" by (cases "run_tests inst i x")
  let ?st1 = "status_callback (running_item_message i n x) ''running'' st"
  let ?st2 = "(perform acts ?st1)\<lparr>plugin_calls := plugin_calls st @ [Call_run_tests x]\<rparr>"
  have run: "test_running st"
    using Cons.prems ix by (auto split: if_splits)
  show ?case
  proof (cases out)
    case (Raises e)
    then show ?thesis using Cons.prems run ix call by (simp add: invoke_eq Let_def)
  next
    case (Returns b)
    show ?thesis
    proof (cases b)
      case False
      have "fst (loadlist_loop inst n rest False
                   (status_callback (failed_item_message x) ''error'' ?st2)) = Returns True"
        using Cons.prems run ix call Returns False by (simp add: invoke_eq Let_def)
      then show ?thesis using Cons.IH by blast
    next
      case True
      have eq: "loadlist_loop inst n (ix # rest) ok st = loadlist_loop inst n rest ok ?st2"
        using run ix call Returns True by (simp add: invoke_eq Let_def)
      have ret: "fst (loadlist_loop inst n rest ok ?st2) = Returns True"
        using Cons.prems by (simp only: eq)
      note ih = Cons.IH [OF ret]
      show ?thesis
        unfolding eq
        using ih [THEN conjunct1] ih [THEN conjunct2, THEN conjunct1]
          ih [THEN conjunct2, THEN conjunct2] ix call Returns True
        by simp
    qed
  qed
qed


lemma after_loop_returns:
  assumes "fst (after_loop inst name cfg ok s) = Returns ov"
  shows "ov = ok"
    and "test_running (snd (after_loop inst name cfg ok s)) \<Longrightarrow>
         \<exists>sn. serial_number cfg = Some sn
           \<and> last (broadcasts (snd (after_loop inst name cfg ok s)))
               = \<lparr>message = ''Test '' @ (if ok then ''completed successfully''
                                        else ''finished with errors'')
                            @ '' for SN: '' @ sn,
                  status = (if ok then ''completed'' else ''error'')\<rparr>"
  using assms
  by (auto simp: after_loop_def final_report_def Let_def
           split: prod.splits outcome.splits option.splits if_splits)

lemma try_body_returns:
  assumes "fst (try_body loader name cfg st) = Returns ov"
  shows "\<exists>md inst ok s5. loader name = Some md \<and> md (model_class_name name) = Some inst
           \<and> loadlist_loop inst (length (case loadlist cfg of None \<Rightarrow> [] | Some l \<Rightarrow> l))
                (enumerate 0 (case loadlist cfg of None \<Rightarrow> [] | Some l \<Rightarrow> l)) True
                (prepared inst name st) = (Returns ok, s5)
           \<and> try_body loader name cfg st = after_loop inst name cfg ok s5"
proof (cases "loader name")
  case None
  then show ?thesis using assms by (simp add: try_body_def)
next
  case (Some md)
  show ?thesis
  proof (cases "md (model_class_name name)")
    case None
    then show ?thesis using assms Some by (simp add: try_body_def)
  next
    case inst: (Some inst)
    show ?thesis
      using assms Some inst
      by (auto simp: try_body_resolved [of loader name md inst, OF Some inst]
               split: outcome.splits prod.splits if_splits)
  qed
qed

text \<open>
  A run ends with \<open>overall_success\<close> true only if every loadlist item was handed to
  \<open>run_tests\<close> and every call returned true.
\<close>

lemma run_true_all_passed:
  assumes "fst (execute_model_test loader model_name cfg st)"
  shows "\<exists>md inst. loader model_name = Some md \<and> md (model_class_name model_name) = Some inst
         \<and> list_all (\<lambda>ix. snd (run_tests inst (fst ix) (snd ix)) = Returns True)
              (enumerate 0 (case loadlist cfg of None \<Rightarrow> [] | Some l \<Rightarrow> l))
         \<and> invoked_items (plugin_calls (snd (execute_model_test loader model_name cfg st)))
             = invoked_items (plugin_calls st)
               @ (case loadlist cfg of None \<Rightarrow> [] | Some l \<Rightarrow> l)"
proof -
  let ?items = "case loadlist cfg of None \<Rightarrow> [] | Some l \<Rightarrow> l"
  have ret: "fst (try_body loader model_name cfg st) = Returns True"
    using assms by (auto simp: execute_cases split: outcome.splits)
  then obtain md inst b s5 where l: "loader model_name = Some md"
    and c: "md (model_class_name model_name) = Some inst"
    and loop: "loadlist_loop inst (length ?items) (enumerate 0 ?items) True
                 (prepared inst model_name st) = (Returns b, s5)"
    and body: "try_body loader model_name cfg st = after_loop inst model_name cfg b s5"
    using try_body_returns by blast
  have b: "b"
    using after_loop_returns(1) [of inst model_name cfg b s5 True] ret body by simp
  have t: "list_all (\<lambda>ix. snd (run_tests inst (fst ix) (snd ix)) = Returns True) (enumerate 0 ?items)
           \<and> invoked_items (plugin_calls s5) = invoked_items (plugin_calls st) @ ?items"
    using loop_true [of inst "length ?items" "enumerate 0 ?items" True "prepared inst model_name st"]
      loop b by (simp add: take_enumerate [of "length ?items" ?items, simplified])
  have "invoked_items (plugin_calls (snd (execute_model_test loader model_name cfg st)))
          = invoked_items (plugin_calls st) @ ?items"
    using t ret by (simp add: execute_cases body)
  then show ?thesis
    using l c t by blast
qed

text \<open>
  When the \<open>try\<close> block ends without an exception while \<open>test_running\<close> is set, the last
  broadcast of the run is the final report.
\<close>

lemma run_final_report:
  assumes "fst (try_body loader model_name cfg st) = Returns ov"
    and "test_running (snd (try_body loader model_name cfg st))"
  shows "fst (execute_model_test loader model_name cfg st) = ov
       \<and> (\<exists>sn. serial_number cfg = Some sn
             \<and> last (broadcasts (snd (execute_model_test loader model_name cfg st)))
                 = \<lparr>message = ''Test '' @ (if ov then ''completed successfully''
                                          else ''finished with errors'')
                              @ '' for SN: '' @ sn,
                    status = (if ov then ''completed'' else ''error'')\<rparr>)"
proof -
  obtain md inst b s5 where
    body: "try_body loader model_name cfg st = after_loop inst model_name cfg b s5"
    using try_body_returns [OF assms(1)] by blast
  have b: "ov = b"
    using after_loop_returns(1) [of inst model_name cfg b s5 ov] assms(1) body by simp
  show ?thesis
    using after_loop_returns(2) [of inst model_name cfg b s5 ov] assms body b
    by (simp add: execute_cases)
qed

text \<open>A run in which every call returns and no command is processed.\<close>

lemma quiet_run:
  assumes "test_running st"
    and "loader model_name = Some md"
    and "md (model_class_name model_name) = Some inst"
    and "loadlist cfg = Some items"
    and "serial_number cfg = Some sn"
    and "snd (construct inst) = Returns ()"
    and "reports_only (fst (construct inst))"
    and "snd (setup_plugin inst) = Returns True"
    and "reports_only (fst (setup_plugin inst))"
    and "list_all (\<lambda>ix. reports_only (fst (run_tests inst (fst ix) (snd ix)))) (enumerate 0 items)"
    and "map (\<lambda>ix. snd (run_tests inst (fst ix) (snd ix))) (enumerate 0 items)
           = map Returns results"
    and "snd (cleanup inst 0) = Returns ()"
    and "reports_only (fst (cleanup inst 0))"
  shows "invoked_items (plugin_calls (snd (execute_model_test loader model_name cfg st)))
           = invoked_items (plugin_calls st) @ items
         \<and> fst (execute_model_test loader model_name cfg st) = list_all (\<lambda>r. r) results
         \<and> last (broadcasts (snd (execute_model_test loader model_name cfg st)))
             = \<lparr>message = ''Test '' @ (if list_all (\<lambda>r. r) results
                                       then ''completed successfully''
                                       else ''finished with errors'')
                          @ '' for SN: '' @ sn,
                status = (if list_all (\<lambda>r. r) results then ''completed'' else ''error'')\<rparr>"
proof -
  let ?p = "prepared inst model_name st"
  let ?loop = "loadlist_loop inst (length items) (enumerate 0 items) True ?p"
  have run: "test_running ?p"
    using assms(1,7,9) by (rule prepared_running)
  have res: "fst ?loop = Returns (list_all (\<lambda>r. r) results)" and run5: "test_running (snd ?loop)"
    using loop_results [OF run assms(10,11), of "length items" True] by simp_all
  have calls: "invoked_items (plugin_calls (snd ?loop)) = invoked_items (plugin_calls st) @ items"
    using loop_calls_all [OF run assms(10,11), of "length items" True] by simp
  obtain st5 where loop: "?loop = (Returns (list_all (\<lambda>r. r) results), st5)"
    using res by (cases ?loop) simp
  have run5': "test_running st5" and calls5: "invoked_items (plugin_calls st5) = invoked_items (plugin_calls st) @ items"
    using run5 calls loop by simp_all
  have body: "try_body loader model_name cfg st
              = after_loop inst model_name cfg (list_all (\<lambda>r. r) results) st5"
    using assms(4,6,8) loop
    by (simp add: try_body_resolved [of loader model_name md inst, OF assms(2,3)])
  obtain a2 where cl: "cleanup inst 0 = (a2, Returns ())" and q2: "reports_only a2"
    using assms(12,13) by (cases "cleanup inst 0") auto
  have after: "after_loop inst model_name cfg ov st5
      = (Returns ov,
         broadcast_to_all_clients
           \<lparr>message = ''Test '' @ (if ov then ''completed successfully'' else ''finished with errors'')
                        @ '' for SN: '' @ sn,
              status = (if ov then ''completed'' else ''error'')\<rparr>
           ((perform a2 (status_callback (''Cleaning up '' @ model_name @ '' test environment...'') ''running'' st5))
              \<lparr>plugin_calls := plugin_calls st5 @ [Call_cleanup], current_model_instance := None\<rparr>))" for ov
    using cl q2 run5' assms(5)
    by (simp add: after_loop_def invoke_eq final_report_def Let_def perform_reports_only)
  show ?thesis
    using calls5 by (simp add: execute_cases body after)
qed

section \<open>Facts about the example inputs\<close>

lemma py_lower_START: "py_lower ''START'' = ''start''"
  by code_simp

lemma running_server_eq:
  "running_server = idle_server\<lparr>test_running := True, current_test := Some demo_config,
      sent := [(''10.0.0.1:5000'', \<lparr>message = ''Starting test for SN: SN1'', status = ''running''\<rparr>),
               (''10.0.0.2:5000'', \<lparr>message = ''Starting test for SN: SN1'', status = ''running''\<rparr>)],
      broadcasts := [\<lparr>message = ''Starting test for SN: SN1'', status = ''running''\<rparr>]\<rparr>"
  by (simp add: running_server_def start_test_def demo_config_def idle_server_def
        broadcast_to_all_clients_def send_to_client_def Let_def)

lemma running_server_fields [simp]:
  "test_running running_server"
  "plugin_calls running_server = []"
  "stop_marks running_server = []"
  "length (broadcasts running_server) = 1"
  by (simp_all add: running_server_eq idle_server_def)

lemma demo_resolve [simp]:
  "demo_loader p ''ModelC'' = Some (demo_module p)"
  "demo_module p (model_class_name ''ModelC'') = Some p"
  by (simp_all add: demo_loader_def demo_module_def model_class_name_def)

lemma demo_config_fields [simp]:
  "loadlist demo_config = Some [item1, item2, item3]"
  "serial_number demo_config = Some ''SN1''"
  "model demo_config = Some ''ModelC''"
  "missing_fields demo_config = []"
  by (simp_all add: demo_config_def missing_fields_def)

lemma enumerate3: "enumerate 0 [a, b, c] = [(0, a), (1, b), (2, c)]"
  by (simp add: enumerate_eq_zip upt_rec)

lemma stopped_run_raises:
  "fst (try_body (demo_loader stopped_then_cleanup_raises) ''ModelC'' demo_config running_server)
   = Raises ''chamber offline''"
  by code_simp

lemma stopped_run_tail:
  "terminal_events (drop 4 (broadcasts (snd (execute_model_test
          (demo_loader stopped_then_cleanup_raises) ''ModelC'' demo_config running_server))))
   = [\<lparr>message = ''Test execution error: chamber offline'', status = ''error''\<rparr>]"
  by code_simp

lemma stopped_run_marks:
  "stop_marks (snd (execute_model_test (demo_loader stopped_then_cleanup_raises)
          ''ModelC'' demo_config running_server)) = [3]"
  by code_simp

section \<open>Facts about the dispatcher and the catalog query\<close>

lemma of_char_py_lower_char:
  "(of_char (py_lower_char c) :: nat) =
     (if (65 \<le> (of_char c :: nat) \<and> (of_char c :: nat) \<le> 90)
         \<or> (192 \<le> (of_char c :: nat) \<and> (of_char c :: nat) \<le> 222 \<and> (of_char c :: nat) \<noteq> 215)
      then of_char c + 32 else of_char c)"
  by (simp add: py_lower_char_def Let_def)

lemma py_lower_char_keeps_space: "py_lower_char c = CHR '' '' \<longleftrightarrow> c = CHR '' ''"
proof -
  have "py_lower_char c = CHR '' '' \<longleftrightarrow> (of_char (py_lower_char c) :: nat) = of_char (CHR '' '')"
    by (simp only: of_char_eq_iff)
  also have "\<dots> \<longleftrightarrow> (of_char c :: nat) = of_char (CHR '' '')"
    by (simp add: of_char_py_lower_char)
  also have "\<dots> \<longleftrightarrow> c = CHR '' ''"
    by (simp only: of_char_eq_iff)
  finally show ?thesis .
qed

lemma py_lower_char_keeps_slash: "py_lower_char c = CHR ''/'' \<longleftrightarrow> c = CHR ''/''"
proof -
  have "py_lower_char c = CHR ''/'' \<longleftrightarrow> (of_char (py_lower_char c) :: nat) = of_char (CHR ''/'')"
    by (simp only: of_char_eq_iff)
  also have "\<dots> \<longleftrightarrow> (of_char c :: nat) = of_char (CHR ''/'')"
    by (simp add: of_char_py_lower_char)
  also have "\<dots> \<longleftrightarrow> c = CHR ''/''"
    by (simp only: of_char_eq_iff)
  finally show ?thesis .
qed

lemma method_name_normalized: "method_name_of test_name = ''test_'' @ normalized_name test_name"
  by (simp add: method_name_of_def normalized_name_def replace_char_def py_lower_def
        py_lower_char_keeps_space py_lower_char_keeps_slash)

lemma name_noise: "method_name_of ''Noise Figure'' = ''test_noise_figure''"
  by code_simp
lemma name_ampm: "method_name_of ''AM/PM'' = ''test_am_pm''"
  by code_simp

lemma fold_min_le: "fold min xs (x::int) \<le> x"
proof (induction xs arbitrary: x)
  case Nil
  then show ?case by simp
next
  case (Cons a xs)
  have "fold min xs (min a x) \<le> min a x" by (rule Cons.IH)
  then show ?case by simp
qed

lemma fold_min_lower: "y \<in> set xs \<Longrightarrow> fold min xs (x::int) \<le> y"
proof (induction xs arbitrary: x)
  case Nil
  then show ?case by simp
next
  case (Cons a xs)
  show ?case
  proof (cases "y = a")
    case True
    have "fold min xs (min a x) \<le> min a x" by (rule fold_min_le)
    then show ?thesis using True by simp
  next
    case False
    then show ?thesis using Cons by simp
  qed
qed

lemma fold_min_mem: "fold min xs (x::int) \<in> set (x # xs)"
  by (induction xs arbitrary: x) (auto simp: min_def)

lemma column_min_least: "y \<in> set xs \<Longrightarrow> column_min xs \<le> y"
  by (cases xs) (auto simp: fold_min_le fold_min_lower)

lemma column_min_mem: "xs \<noteq> [] \<Longrightarrow> column_min xs \<in> set xs"
  using fold_min_mem by (cases xs) auto

lemma set_unique [simp]: "set (unique xs) = set xs"
  by (induction xs) auto

lemma distinct_unique: "distinct (unique xs)"
  by (induction xs) auto

lemma winning_rows:
  assumes "filter (rule_matches m b t) rules \<noteq> []"
  shows "set (filter (\<lambda>r. Priority r = column_min (map Priority (filter (rule_matches m b t) rules)))
                (filter (rule_matches m b t) rules))
         = {r. wins rules m b t r}"
proof -
  let ?app = "filter (rule_matches m b t) rules"
  let ?hp = "column_min (map Priority ?app)"
  have least: "?hp \<le> Priority r'" if "r' \<in> set rules" "rule_matches m b t r'" for r'
    using that by (intro column_min_least) auto
  have "?hp \<in> set (map Priority ?app)"
    using assms by (intro column_min_mem) simp
  then obtain r0 where r0: "r0 \<in> set rules" "rule_matches m b t r0" "Priority r0 = ?hp"
    by auto
  show ?thesis
  proof (intro set_eqI iffI)
    fix r assume "r \<in> set (filter (\<lambda>r. Priority r = ?hp) ?app)"
    then show "r \<in> {r. wins rules m b t r}"
      using least by (auto simp: wins_def)
  next
    fix r assume "r \<in> {r. wins rules m b t r}"
    then have w: "r \<in> set rules" "rule_matches m b t r" "Priority r \<le> Priority r0"
      using r0 by (auto simp: wins_def)
    then have "Priority r = ?hp"
      using r0(3) least [of r] by simp
    then show "r \<in> set (filter (\<lambda>r. Priority r = ?hp) ?app)"
      using w by simp
  qed
qed

lemma demo_query: "get_testcase demo_rules demo_defs_table 1 5 7 = [(1, ''Gain Flatness''), (3, ''AM/PM'')]"
  by (simp add: get_testcase_def demo_rules_def demo_defs_table_def rule_matches_def Let_def)

lemma demo_query_none: "get_testcase (tl demo_rules) demo_defs_table 3 6 8 = []"
  by (simp add: get_testcase_def demo_rules_def demo_defs_table_def rule_matches_def Let_def)

section \<open>Facts about the framed channel\<close>

lemma hex_digits_table: "list_all (\<lambda>d. hex_value (hex_digit d) = Some d) [0..<16]"
  by code_simp

lemma hex_value_digit: "d < 16 \<Longrightarrow> hex_value (hex_digit d) = Some d"
  using hex_digits_table by (simp add: list_all_iff)

lemma hex_value_zero: "hex_value (CHR ''0'') = Some 0"
  by (simp add: hex_value_def)

lemma hex4_of_char: "hex4 (CHR ''0'') (CHR ''0'') (hex_digit ((of_char c :: nat) div 16))
                       (hex_digit ((of_char c :: nat) mod 16)) = Some (of_char c)"
proof -
  have "(of_char c :: nat) < 256" by simp
  then have "(of_char c :: nat) div 16 < 16" by arith
  then show ?thesis
    by (simp add: hex4_def hex_value_zero hex_value_digit)
qed

lemma scan_escape: "scanstring (escape_char c @ t) = push_char c (scanstring t)"
proof -
  let ?n = "of_char c :: nat"
  consider (special) "c = CHR 0x22 \<or> c = CHR 0x5C \<or> c = CHR 0x0A \<or> c = CHR 0x0D
                      \<or> c = CHR 0x09 \<or> c = CHR 0x08 \<or> c = CHR 0x0C"
    | (plain) "c \<noteq> CHR 0x22" "c \<noteq> CHR 0x5C" "c \<noteq> CHR 0x0A" "c \<noteq> CHR 0x0D"
              "c \<noteq> CHR 0x09" "c \<noteq> CHR 0x08" "c \<noteq> CHR 0x0C" "32 \<le> ?n \<and> ?n \<le> 126"
    | (uni) "c \<noteq> CHR 0x22" "c \<noteq> CHR 0x5C" "c \<noteq> CHR 0x0A" "c \<noteq> CHR 0x0D"
              "c \<noteq> CHR 0x09" "c \<noteq> CHR 0x08" "c \<noteq> CHR 0x0C" "\<not> (32 \<le> ?n \<and> ?n \<le> 126)"
    by blast
  then show ?thesis
  proof cases
    case special
    then show ?thesis
      by (auto simp: escape_char_def backslash_def)
  next
    case plain
    then show ?thesis
      by (simp add: escape_char_def)
  next
    case uni
    have "escape_char c = [CHR 0x5C, CHR ''u'', CHR ''0'', CHR ''0'',
            hex_digit (?n div 16), hex_digit (?n mod 16)]"
      using uni by (simp add: escape_char_def)
    then show ?thesis
      by (simp add: hex4_of_char)
  qed
qed

lemma scan_escaped: "scanstring (concat (map escape_char s) @ CHR 0x22 # rest) = Some (s, rest)"
  by (induction s) (simp_all add: scan_escape push_char_def)

lemma skip_ws_Cons:
  "skip_ws (c # s) = (if c = CHR '' '' \<or> c = CHR 0x09 \<or> c = CHR 0x0A \<or> c = CHR 0x0D
                      then skip_ws s else c # s)"
  by (simp add: skip_ws_def)

lemma parse_last_member:
  "parse_members (concat (map escape_char k) @ [CHR 0x22] @ '': '' @ json_string v @ ''}'' @ rest)
   = Some ([(k, v)], rest)"
proof -
  have "concat (map escape_char k) @ [CHR 0x22] @ '': '' @ json_string v @ ''}'' @ rest
        = concat (map escape_char k) @ CHR 0x22 # (CHR '':'' # CHR '' '' # CHR 0x22 #
            (concat (map escape_char v) @ CHR 0x22 # (CHR ''}'' # rest)))"
    by (simp add: json_string_def)
  then show ?thesis
    by (simp add: parse_members.simps [of "concat (map escape_char k) @ _"] scan_escaped skip_ws_Cons)
qed

lemma parse_member:
  "parse_members (concat (map escape_char k) @ [CHR 0x22] @ '': '' @ json_string v @ '', ''
                    @ [CHR 0x22] @ others)
   = (case parse_members others of None \<Rightarrow> None | Some (pairs, rest) \<Rightarrow> Some ((k, v) # pairs, rest))"
proof -
  have "concat (map escape_char k) @ [CHR 0x22] @ '': '' @ json_string v @ '', '' @ [CHR 0x22] @ others
        = concat (map escape_char k) @ CHR 0x22 # (CHR '':'' # CHR '' '' # CHR 0x22 #
            (concat (map escape_char v) @ CHR 0x22 # (CHR '','' # CHR '' '' # CHR 0x22 # others)))"
    by (simp add: json_string_def)
  then show ?thesis
    by (simp add: parse_members.simps [of "concat (map escape_char k) @ _"] scan_escaped skip_ws_Cons)
qed

lemma raw_decode_dumps:
  "raw_decode (json_dumps ev @ rest) = Some (dict_of_event ev, length (json_dumps ev))"
proof -
  define members where "members =
       concat (map escape_char ''message'') @ [CHR 0x22] @ '': '' @ json_string (message ev) @ '', ''
          @ [CHR 0x22]
          @ (concat (map escape_char ''status'') @ [CHR 0x22] @ '': '' @ json_string (status ev)
               @ ''}'' @ rest)"
  have shape: "json_dumps ev @ rest = CHR ''{'' # CHR 0x22 # members"
    by (simp add: members_def json_dumps_def json_string_def)
  have pm: "parse_members members = Some (dict_of_event ev, rest)"
    unfolding members_def
    by (simp only: parse_member parse_last_member dict_of_event_def option.case prod.case)
  have po: "parse_object (CHR 0x22 # members) = Some (dict_of_event ev, rest)"
    by (simp add: parse_object_def skip_ws_Cons pm)
  have "raw_decode (CHR ''{'' # CHR 0x22 # members)
        = Some (dict_of_event ev, length (CHR ''{'' # CHR 0x22 # members) - length rest)"
    by (simp add: raw_decode_def po)
  then have "raw_decode (json_dumps ev @ rest)
        = Some (dict_of_event ev, length (json_dumps ev @ rest) - length rest)"
    by (simp only: shape)
  then show ?thesis by simp
qed
lemma json_message_Cons: "json_message ev = CHR ''{'' # tl (json_message ev)"
  by (simp add: json_message_def json_dumps_def)

lemma no_space_before_frame: "takeWhile py_isspace (concat (map json_message evs)) = []"
proof (cases evs)
  case Nil
  then show ?thesis by simp
next
  case (Cons ev rest)
  have "\<not> py_isspace (CHR ''{'')" by (simp add: py_isspace_def)
  then show ?thesis
    using Cons by (simp add: json_message_def json_dumps_def)
qed

lemma newline_is_space: "py_isspace (CHR 0x0A)"
  by (simp add: py_isspace_def)

lemma loop_on_frames:
  "process_buffer_loop (pre @ concat (map json_message evs)) (length pre) handled
   = (pre @ concat (map json_message evs), length (pre @ concat (map json_message evs)),
      handled @ map dict_of_event evs)"
proof (induction evs arbitrary: pre handled)
  case Nil
  show ?case by (simp add: process_buffer_loop.simps [of pre])
next
  case (Cons ev evs)
  let ?tail = "concat (map json_message evs)"
  let ?buffer = "pre @ concat (map json_message (ev # evs))"
  have buffer: "?buffer = (pre @ json_message ev) @ ?tail" by simp
  have lt: "length pre < length ?buffer"
    by (simp add: json_message_def)
  have dec: "raw_decode (drop (length pre) ?buffer)
             = Some (dict_of_event ev, length (json_dumps ev))"
    using raw_decode_dumps [of ev "CHR 0x0A # ?tail"] by (simp add: json_message_def)
  have rest: "drop (length pre + length (json_dumps ev)) ?buffer = CHR 0x0A # ?tail"
    by (simp add: json_message_def)
  have skip: "length (takeWhile py_isspace (CHR 0x0A # ?tail)) = 1"
    by (simp add: newline_is_space no_space_before_frame)
  have next_pos: "length pre + length (json_dumps ev) + 1 = length (pre @ json_message ev)"
    by (simp add: json_message_def)
  have "process_buffer_loop ?buffer (length pre) handled
        = process_buffer_loop ?buffer (length (pre @ json_message ev)) (handled @ [dict_of_event ev])"
    by (subst process_buffer_loop.simps) (simp only: lt dec rest skip next_pos if_True option.case prod.case)
  also have "\<dots> = ((pre @ json_message ev) @ ?tail, length ((pre @ json_message ev) @ ?tail),
      (handled @ [dict_of_event ev]) @ map dict_of_event evs)"
    unfolding buffer by (rule Cons.IH)
  finally show ?case by simp
qed

lemma tricky_frame:
  "json_message tricky_event
   = ''{'' @ [CHR 0x22] @ ''message'' @ [CHR 0x22] @ '': '' @ [CHR 0x22]
       @ ''Retrieved specs: {'' @ [CHR 0x27] @ ''span'' @ [CHR 0x27] @ '': ''
       @ [CHR 0x5C, CHR 0x22] @ ''2.5G'' @ [CHR 0x5C, CHR 0x22, CHR 0x5C, CHR 0x5C, CHR 0x5C]
       @ ''n'' @ [CHR 0x5C] @ ''u00b0}'' @ [CHR 0x22] @ '', '' @ [CHR 0x22] @ ''status''
       @ [CHR 0x22] @ '': '' @ [CHR 0x22] @ ''running'' @ [CHR 0x22] @ ''}'' @ [CHR 0x0A]"
  by code_simp

section \<open>Claims about the worker\<close>




text \<open>
  C2. A start command with a valid configuration, received while the server is Idle,
  either fails to start the worker and leaves the server Idle, or sets
  \<open>test_running\<close> and \<open>current_test\<close> and starts the worker; and whatever the loader
  and the model class do (not found, constructor or setup failing, any call raising,
  any stop command), the worker leaves the server Idle: \<open>test_running\<close> false,
  \<open>current_test\<close> and the plugin handle cleared.
\<close>

theorem run_state_returns_to_idle:
  assumes "is_idle st"
    and "command msg = Some c" and "py_lower c = ''start''"
    and "cfg_of msg = Some cfg"
    and "missing_fields cfg = []" and "loadlist cfg \<noteq> Some []"
  shows "case process_client_message sock msg st of
           (st1, started) \<Rightarrow>
             if started
             then test_running st1 \<and> current_test st1 = Some cfg
                  \<and> (\<exists>name. model cfg = Some name
                        \<and> is_idle (snd (execute_model_test loader name cfg st1)))
             else is_idle st1"
proof -
  obtain sn where sn: "serial_number cfg = Some sn"
    using assms(5) by (cases "serial_number cfg") (auto simp: missing_fields_def)
  obtain name where name: "model cfg = Some name"
    using assms(5) by (cases "model cfg") (auto simp: missing_fields_def split: if_splits)
  obtain items where ll: "loadlist cfg = Some items"
    using assms(5) by (cases "loadlist cfg") (auto simp: missing_fields_def split: if_splits)
  have ne: "items \<noteq> []"
    using assms(6) ll by simp
  have nc: "\<not> no_config (Some cfg)"
    using sn by (simp add: no_config_def)
  have idle: "is_idle (snd (execute_model_test loader name cfg s))" for s
    by (simp add: execute_cases is_idle_def split: outcome.splits)
  have "process_client_message sock msg st = start_test sock cfg st"
    using assms(1-5) nc ll ne
    by (simp add: process_client_message_def handle_start_command_def is_idle_def)
  then show ?thesis
    using assms(1) sn name idle
    by (auto simp: start_test_def start_failed_def is_idle_def Let_def split: option.splits)
qed

theorem run_state_returns_to_idle_witness:
  "is_idle idle_server
   \<and> missing_fields demo_config = []
   \<and> (case process_client_message ''10.0.0.1:5000'' start_message idle_server of
         (st1, started) \<Rightarrow>
           started \<and> test_running st1
           \<and> is_idle (snd (execute_model_test (demo_loader first_item_raises) ''ModelC''
                             demo_config st1)))"
proof -
  have h1: "is_idle idle_server" by (simp add: is_idle_def idle_server_def)
  have h2: "command start_message = Some ''START''"
    and h4: "cfg_of start_message = Some demo_config"
    by (simp_all add: start_message_def)
  have h5: "missing_fields demo_config = []" and h6: "loadlist demo_config \<noteq> Some []"
    by simp_all
  have started: "snd (process_client_message ''10.0.0.1:5000'' start_message idle_server)"
    using h2 h4 h5
    by (simp add: process_client_message_def py_lower_START handle_start_command_def
          no_config_def start_test_def idle_server_def Let_def)
  show ?thesis
    using h1 h5 started
      run_state_returns_to_idle [OF h1 h2 py_lower_START h4 h5 h6,
        where sock = "''10.0.0.1:5000''" and loader = "demo_loader first_item_raises"]
    by (auto split: prod.splits)
qed





text \<open>
  Why the conditions on start commands are there. \<open>handle_start_command\<close> looks at
  \<open>test_running\<close> only, so a start command that follows a stop command is accepted while
  the stopped worker is still inside a plugin call, and \<open>start_test\<close> sets
  \<open>test_running\<close> again. The stopped worker then finds the flag set at its next check:
  it goes through all three items although a stop command was processed during the
  first, and ends with the final report \<open>completed\<close>, after the message of \<open>stop_test\<close>.
\<close>

lemma restart_lets_the_stopped_worker_go_on:
  "invoked_items (plugin_calls (snd (execute_model_test (demo_loader restart_in_first_item)
          ''ModelC'' demo_config running_server))) = [item1, item2, item3]
   \<and> stop_marks (snd (execute_model_test (demo_loader restart_in_first_item)
          ''ModelC'' demo_config running_server)) = [3]
   \<and> map status (drop 3 (broadcasts (snd (execute_model_test (demo_loader restart_in_first_item)
          ''ModelC'' demo_config running_server))))
       = [''stopped'', ''running'', ''running'', ''running'', ''running'', ''completed'']"
  by code_simp




section \<open>Claims about the session commands\<close>

text \<open>
  C6. A start command that arrives while \<open>test_running\<close> is true is rejected: the
  server writes exactly one frame, to the sender, with status \<open>running\<close> and the message
  "Test already running. Please stop current test first."; nothing is broadcast, no
  other socket is written to, no worker is started, and \<open>test_running\<close>,
  \<open>current_test\<close> and the plugin handle are unchanged.
\<close>

theorem start_while_running_rejected:
  assumes "test_running st"
    and "command msg = Some c"
    and "py_lower c = ''start''"
  shows "process_client_message sock msg st =
           (st\<lparr>sent := sent st @ [(sock,
                  \<lparr>message = ''Test already running. Please stop current test first.'',
                   status = ''running''\<rparr>)]\<rparr>, False)"
  using assms
  by (simp add: process_client_message_def handle_start_command_def send_to_client_def)

theorem start_while_running_rejected_witness:
  "test_running running_server
   \<and> command start_message = Some ''START''
   \<and> py_lower ''START'' = ''start''
   \<and> process_client_message ''10.0.0.2:5000'' start_message running_server
       = (running_server\<lparr>sent := sent running_server @ [(''10.0.0.2:5000'',
            \<lparr>message = ''Test already running. Please stop current test first.'',
             status = ''running''\<rparr>)]\<rparr>, False)"
proof -
  have h1: "test_running running_server" by simp
  have h2: "command start_message = Some ''START''" by (simp add: start_message_def)
  show ?thesis
    using h1 h2 py_lower_START start_while_running_rejected [OF h1 h2 py_lower_START] by simp
qed

text \<open>
  C8. A stop command while \<open>test_running\<close> is false writes one \<open>idle\<close> frame to the
  sender only and changes nothing else; a second stop does the same again, so the run
  state after any number of stops is the run state before.
\<close>

theorem stop_while_idle_idempotent:
  assumes "\<not> test_running st"
  shows "handle_stop_command sock st =
           st\<lparr>sent := sent st @ [(sock,
                 \<lparr>message = ''No test currently running'', status = ''idle''\<rparr>)]\<rparr>
         \<and> \<not> test_running (handle_stop_command sock st)
         \<and> handle_stop_command sock (handle_stop_command sock st) =
             st\<lparr>sent := sent st @ [(sock,
                   \<lparr>message = ''No test currently running'', status = ''idle''\<rparr>),
                 (sock, \<lparr>message = ''No test currently running'', status = ''idle''\<rparr>)]\<rparr>"
  using assms
  by (simp add: handle_stop_command_def send_to_client_def)

theorem stop_while_idle_idempotent_witness:
  "\<not> test_running idle_server
   \<and> sent (handle_stop_command ''10.0.0.2:5000'' idle_server)
       = [(''10.0.0.2:5000'', \<lparr>message = ''No test currently running'', status = ''idle''\<rparr>)]
   \<and> broadcasts (handle_stop_command ''10.0.0.2:5000'' (handle_stop_command ''10.0.0.2:5000'' idle_server)) = []
   \<and> is_idle (handle_stop_command ''10.0.0.2:5000'' (handle_stop_command ''10.0.0.2:5000'' idle_server))"
proof -
  have h: "\<not> test_running idle_server" by (simp add: idle_server_def)
  have f: "sent idle_server = []" "broadcasts idle_server = []" "current_test idle_server = None"
    "current_model_instance idle_server = None"
    by (simp_all add: idle_server_def)
  show ?thesis
    using h f stop_while_idle_idempotent [OF h, of "''10.0.0.2:5000''"]
    by (simp add: is_idle_def handle_stop_command_def send_to_client_def)
qed

text \<open>
  C10. While \<open>test_running\<close> is false the status callback does nothing at all: the
  server state, and with it every socket, is as before. The same holds for every
  message a plugin call reports through the callback after a stop command has been
  processed during that call.
\<close>

theorem callback_discarded_when_not_running:
  assumes "\<not> test_running st"
  shows "status_callback msg stat st = st
         \<and> perform (map (\<lambda>(m, s). Emit m s) reports) st = st
         \<and> (test_running st0 \<longrightarrow>
              perform (Stop_cmd c # map (\<lambda>(m, s). Emit m s) reports) st0 = stop_test c st0)"
proof -
  have discard: "perform (map (\<lambda>(m, s). Emit m s) reports) s0 = s0"
    if "\<not> test_running s0" for s0
    using that by (induction reports) (auto simp: status_callback_def)
  have "\<not> test_running (stop_test c st0)"
    by (simp add: stop_test_def)
  then show ?thesis
    using assms discard by (simp add: status_callback_def handle_stop_command_def)
qed

theorem callback_discarded_when_not_running_witness:
  "\<not> test_running idle_server
   \<and> test_running running_server
   \<and> status_callback ''[ModelC] Test stopped by user.'' ''stopped'' idle_server = idle_server
   \<and> perform [Stop_cmd ''10.0.0.2:5000'', Emit ''[ModelC] Test stopped by user.'' ''stopped'',
               Emit ''[ModelC] Cleanup complete.'' ''running''] running_server
       = stop_test ''10.0.0.2:5000'' running_server"
proof -
  have h: "\<not> test_running idle_server" by (simp add: idle_server_def)
  show ?thesis
    using h callback_discarded_when_not_running [OF h,
          of "''[ModelC] Test stopped by user.''" "''stopped''"
          "[(''[ModelC] Test stopped by user.'', ''stopped''), (''[ModelC] Cleanup complete.'', ''running'')]"
          running_server "''10.0.0.2:5000''"]
    by simp
qed

section \<open>Claims about the catalog query and the dispatcher\<close>

text \<open>
  C7. \<open>get_testcase\<close> returns, in the order of the definitions sheet, exactly the test
  cases whose ID is referenced by a winning row: a rule that matches the query, where 0
  in a rule field matches any value, and that has the lowest priority number among the
  matching rules. Each test case is returned once however many winning rows reference
  it (the IDs returned are distinct when the definitions sheet has distinct IDs), and
  the result is empty when no rule matches.
\<close>

theorem get_testcase_lowest_priority_rows:
  "get_testcase rules defs m b t
     = map (\<lambda>d. (ID d, TestCaseName d))
         (filter (\<lambda>d. \<exists>r. wins rules m b t r \<and> TestCaseID r = ID d) defs)
   \<and> ((\<forall>r \<in> set rules. \<not> rule_matches m b t r) \<longrightarrow> get_testcase rules defs m b t = [])
   \<and> (distinct (map ID defs) \<longrightarrow> distinct (map fst (get_testcase rules defs m b t)))"
proof -
  let ?app = "filter (rule_matches m b t) rules"
  have main: "get_testcase rules defs m b t
     = map (\<lambda>d. (ID d, TestCaseName d))
         (filter (\<lambda>d. \<exists>r. wins rules m b t r \<and> TestCaseID r = ID d) defs)"
  proof (cases "?app = []")
    case True
    then have "\<not> wins rules m b t r" for r
      by (auto simp: wins_def filter_empty_conv)
    then show ?thesis using True by (simp add: get_testcase_def)
  next
    case False
    have "get_testcase rules defs m b t
          = map (\<lambda>d. (ID d, TestCaseName d))
              (filter (\<lambda>d. ID d \<in> TestCaseID ` {r. wins rules m b t r}) defs)"
      using False winning_rows [OF False]
      by (simp add: get_testcase_def Let_def del: set_filter)
    moreover have "filter (\<lambda>d. ID d \<in> TestCaseID ` {r. wins rules m b t r}) defs
          = filter (\<lambda>d. \<exists>r. wins rules m b t r \<and> TestCaseID r = ID d) defs"
      by (rule filter_cong) force+
    ultimately show ?thesis by simp
  qed
  have empty: "get_testcase rules defs m b t = []" if "\<forall>r \<in> set rules. \<not> rule_matches m b t r"
    using that by (simp add: get_testcase_def filter_empty_conv)
  have dist: "distinct (map fst (get_testcase rules defs m b t))" if "distinct (map ID defs)"
  proof -
    have "map fst (map (\<lambda>d. (ID d, TestCaseName d)) (filter P defs)) = map ID (filter P defs)" for P
      by (simp add: comp_def)
    moreover have "distinct (map ID (filter P defs))" for P
      using that by (rule distinct_map_filter)
    ultimately show ?thesis
      by (simp only: main)
  qed
  show ?thesis using main empty dist by blast
qed

theorem get_testcase_lowest_priority_rows_witness:
  "distinct (map ID demo_defs_table)
   \<and> get_testcase demo_rules demo_defs_table 1 5 7 = [(1, ''Gain Flatness''), (3, ''AM/PM'')]
   \<and> distinct (map fst (get_testcase demo_rules demo_defs_table 1 5 7))
   \<and> list_all (\<lambda>r. \<not> rule_matches 3 6 8 r) (tl demo_rules)
   \<and> get_testcase (tl demo_rules) demo_defs_table 3 6 8 = []"
proof -
  have d: "distinct (map ID demo_defs_table)"
    by (simp add: demo_defs_table_def)
  have n: "\<forall>r \<in> set (tl demo_rules). \<not> rule_matches 3 6 8 r"
    by (simp add: demo_rules_def rule_matches_def)
  have a: "distinct (map fst (get_testcase demo_rules demo_defs_table 1 5 7))"
    using d get_testcase_lowest_priority_rows [of demo_rules demo_defs_table 1 5 7] by blast
  have b: "get_testcase (tl demo_rules) demo_defs_table 3 6 8 = []"
    using n get_testcase_lowest_priority_rows [of "tl demo_rules" demo_defs_table 3 6 8] by blast
  show ?thesis
    using d n a b demo_query by (simp add: list_all_iff)
qed


text \<open>
  C9. The method name that \<open>run_test_by_name\<close> looks up is \<open>test_\<close> followed by the
  test-case name lowercased with spaces and slashes replaced by underscores. Whatever
  the test-case name and whatever the test methods do (also when they raise), the
  dispatcher returns a result and never raises; and when the name resolves to no method,
  the result has \<open>passed\<close> false and the message "Test case '...' is not implemented in
  TestCases2.", which is also reported with status \<open>error\<close>.
\<close>

theorem unimplemented_test_case_fails_without_raising:
  "method_name_of test_name = ''test_'' @ normalized_name test_name
   \<and> (\<exists>r. fst (run_test_by_name impl test_name) = Returns r)
   \<and> ((\<forall>m. getattr_TestCases2 (method_name_of test_name) \<noteq> Some (Method m)) \<longrightarrow>
         run_test_by_name impl test_name
           = (Returns \<lparr>passed = False,
                       result_message = ''Test case '' @ quoted test_name
                                          @ '' is not implemented in TestCases2.''\<rparr>,
              [(''Test case '' @ quoted test_name @ '' is not implemented in TestCases2.'',
                ''error'')]))"
proof -
  have a: "\<exists>r. fst (run_test_by_name impl test_name) = Returns r"
    by (auto simp: run_test_by_name_def Let_def split: option.splits attribute.splits prod.splits outcome.splits)
  have b: "run_test_by_name impl test_name
           = (Returns \<lparr>passed = False,
                       result_message = ''Test case '' @ quoted test_name
                                          @ '' is not implemented in TestCases2.''\<rparr>,
              [(''Test case '' @ quoted test_name @ '' is not implemented in TestCases2.'',
                ''error'')])"
    if "\<forall>m. getattr_TestCases2 (method_name_of test_name) \<noteq> Some (Method m)"
    using that
    by (auto simp: run_test_by_name_def Let_def split: option.splits attribute.splits)
  show ?thesis using a b method_name_normalized by blast
qed

theorem unimplemented_test_case_fails_without_raising_witness:
  "method_name_of ''Noise Figure'' = ''test_noise_figure''
   \<and> getattr_TestCases2 ''test_noise_figure'' = None
   \<and> run_test_by_name placeholder_methods ''Noise Figure''
       = (Returns \<lparr>passed = False,
                   result_message = ''Test case '' @ quoted ''Noise Figure''
                                      @ '' is not implemented in TestCases2.''\<rparr>,
          [(''Test case '' @ quoted ''Noise Figure'' @ '' is not implemented in TestCases2.'',
            ''error'')])
   \<and> fst (run_test_by_name placeholder_methods ''AM/PM'')
       = Returns \<lparr>passed = True, result_message = quoted ''AM/PM'' @ '' completed.''\<rparr>
   \<and> fst (run_test_by_name placeholder_methods ''Gain Flatness'')
       = Returns \<lparr>passed = False,
                  result_message = ''Execution error in '' @ quoted ''Gain Flatness''
                                     @ '': power meter not found''\<rparr>"
proof -
  have g: "getattr_TestCases2 ''test_noise_figure'' = None"
    by (simp add: getattr_TestCases2_def)
  have n: "method_name_of ''Gain Flatness'' = ''test_gain_flatness''"
    by code_simp
  have h: "\<forall>m. getattr_TestCases2 (method_name_of ''Noise Figure'') \<noteq> Some (Method m)"
    by (simp add: name_noise g)
  have r1: "run_test_by_name placeholder_methods ''Noise Figure''
       = (Returns \<lparr>passed = False,
                   result_message = ''Test case '' @ quoted ''Noise Figure''
                                      @ '' is not implemented in TestCases2.''\<rparr>,
          [(''Test case '' @ quoted ''Noise Figure'' @ '' is not implemented in TestCases2.'',
            ''error'')])"
    using h unimplemented_test_case_fails_without_raising [of "''Noise Figure''" placeholder_methods]
    by blast
  have r2: "fst (run_test_by_name placeholder_methods ''AM/PM'')
       = Returns \<lparr>passed = True, result_message = quoted ''AM/PM'' @ '' completed.''\<rparr>"
    by (simp add: run_test_by_name_def name_ampm getattr_TestCases2_def placeholder_methods_def)
  have r3: "fst (run_test_by_name placeholder_methods ''Gain Flatness'')
       = Returns \<lparr>passed = False,
                  result_message = ''Execution error in '' @ quoted ''Gain Flatness''
                                     @ '': power meter not found''\<rparr>"
    by (simp add: run_test_by_name_def n getattr_TestCases2_def placeholder_methods_def)
  show ?thesis
    by (intro conjI) (rule name_noise g r1 r2 r3)+
qed


section \<open>Claim about the framed channel\<close>



end
